theory Spec2Isabelle
  imports Complex_Main "HOL-Library.AList"
begin

section \<open>Data model (app/models.py)\<close>

datatype UserRole = ADMIN | RESTAURANT | CUSTOMER | DELIVERY_AGENT

datatype OrderStatus = PLACED | ACCEPTED | ASSIGNED | PICKED_UP | DELIVERED

text \<open>
  The SQLAlchemy rows. Field names carry a prefix (\<open>u_\<close>, \<open>m_\<close>, \<open>oi_\<close>, \<open>o_\<close>, \<open>p_\<close>, ...)
  because record fields are global constants. A \<open>Float\<close> column has the abstract type
  \<open>'a\<close>: the development uses \<open>0\<close>, \<open>+\<close> and \<open>*\<close> on it through the syntactic
  classes \<open>zero\<close>, \<open>plus\<close> and \<open>times\<close> only, so no law of exact arithmetic that
  IEEE doubles lack is ever used. Timestamps are natural numbers. The \<open>items\<close> column,
  a JSON string written by \<open>json.dumps\<close> and read back by \<open>json.loads\<close>, is the
  list of line items itself.
\<close>

record UserModel =
  u_id :: string
  u_username :: string
  u_email :: string
  u_role :: UserRole
  u_hashed_password :: string
  u_disabled :: bool

record 'a MenuItemModel =
  m_id :: string
  m_restaurant_id :: string
  m_name :: string
  m_description :: string
  m_price :: 'a
  m_is_available :: bool

record OrderItemDict =
  oi_item_id :: string
  oi_quantity :: int

record 'a OrderModel =
  o_id :: string
  o_customer_id :: string
  o_restaurant_id :: string
  o_delivery_agent_id :: "string option"
  o_items :: "OrderItemDict list"
  o_total_amount :: 'a
  o_status :: OrderStatus
  o_created_at :: nat
  o_updated_at :: nat

record 'a PaymentModel =
  p_id :: string
  p_order_id :: string
  p_amount :: 'a
  p_restaurant_share :: 'a
  p_delivery_fee :: 'a
  p_status :: string
  p_created_at :: nat

text \<open>The request bodies \<open>MenuItemBase\<close>, \<open>OrderCreate\<close>, \<open>OrderUpdate\<close> and \<open>UserCreate\<close>.\<close>

record 'a MenuItemBase =
  mb_name :: string
  mb_description :: string
  mb_price :: 'a
  mb_is_available :: bool

record OrderCreate =
  oc_restaurant_id :: string
  oc_items :: "OrderItemDict list"

record OrderUpdate =
  ou_status :: OrderStatus
  ou_delivery_agent_id :: "string option"

record UserCreate =
  uc_username :: string
  uc_email :: string
  uc_role :: UserRole
  uc_password :: string

text \<open>
  The database session: one list of rows per table, in insertion order.
\<close>

record 'a db =
  users :: "UserModel list"
  menu_items :: "'a MenuItemModel list"
  orders :: "'a OrderModel list"
  payments :: "'a PaymentModel list"

text \<open>
  What the program cannot compute from its inputs: the conversion of a Python \<open>int\<close> to
  a float (in \<open>price * quantity\<close>), the float literals \<open>0.8\<close> and \<open>0.2\<close>, and the
  time at which \<open>models.py\<close> was imported (the column default \<open>datetime.now()\<close> of
  \<open>PaymentModel.created_at\<close> is evaluated once, there).
\<close>

record 'a env =
  float_of_int :: "int \<Rightarrow> 'a"
  float_0_8 :: 'a
  float_0_2 :: 'a
  import_time :: nat

section \<open>Errors and push messages\<close>

datatype detail =
    Username_already_registered
  | Inactive_user
  | Operation_requires_role UserRole
  | Menu_item_not_found
  | Not_authorized_to_update_this_menu_item
  | Not_authorized_to_delete_this_menu_item
  | Restaurant_not_found
  | Menu_item_id_not_found string
  | Menu_item_does_not_belong_to_the_selected_restaurant string
  | Order_not_found
  | Not_authorized_to_update_this_order_status
  | Invalid_status_transition OrderStatus OrderStatus
  | Not_authorized_to_process_payment_for_this_order

text \<open>
  \<open>HTTPException status_code detail\<close> is what the handlers raise themselves;
  \<open>IntegrityError\<close> is raised by \<open>db.commit()\<close> when a declared key constraint is
  violated, \<open>ValueError\<close> by \<open>list.remove\<close>, \<open>AttributeError\<close> by an attribute
  lookup on an object that lacks it, \<open>RuntimeError\<close> by \<open>websocket.accept()\<close> on a
  socket that has been accepted before.
\<close>

datatype error =
    HTTPException nat detail
  | IntegrityError
  | ValueError
  | AttributeError
  | RuntimeError

datatype 'a message =
    New_order string string 'a nat
  | Order_update string OrderStatus nat
  | Order_available string string nat

text \<open>Python truthiness of an \<open>Optional[str]\<close>: \<open>None\<close> and \<open>""\<close> are false.\<close>

definition truthy :: "string option \<Rightarrow> bool" where
  "truthy s = (case s of None \<Rightarrow> False | Some v \<Rightarrow> v \<noteq> [])"

section \<open>The connection manager (app/consumers.py)\<close>

text \<open>
  \<open>active_connections: Dict[str, Dict[str, List[WebSocket]]]\<close>. Python dictionaries keep
  insertion order and \<open>broadcast_to_delivery_agents\<close> iterates over one, so they are
  association lists: \<open>map_of\<close> is the lookup, \<open>AList.update\<close> the assignment (a new key
  goes to the end), \<open>AList.delete\<close> is \<open>del\<close>. A websocket is an opaque handle,
  compared by identity. \<open>send_json\<close> calls are recorded, in order, as the list of
  (connection, message) pairs the function returns; \<open>send_json\<close> belongs to the
  transport and is taken to return.
\<close>

type_synonym websocket = nat

type_synonym scopes = "(string \<times> websocket list) list"

type_synonym connections = "(string \<times> scopes) list"

definition append_connection :: "string \<Rightarrow> websocket \<Rightarrow> scopes \<Rightarrow> scopes" where
  "append_connection key websocket scs =
     (let scs1 = (if map_of scs key = None then AList.update key [] scs else scs)
      in AList.update key ((case map_of scs1 key of None \<Rightarrow> [] | Some conns \<Rightarrow> conns) @ [websocket]) scs1)"

text \<open>
  The body of \<open>connect\<close> after its first line: the writes to \<open>active_connections\<close>.
\<close>

definition register_connection :: "websocket \<Rightarrow> string \<Rightarrow> string option \<Rightarrow> connections \<Rightarrow> connections" where
  "register_connection websocket user_id order_id active_connections =
     (let ac = (if map_of active_connections user_id = None
                then AList.update user_id [] active_connections else active_connections);
          scs = (case map_of ac user_id of None \<Rightarrow> [] | Some s \<Rightarrow> s)
      in (case order_id of
            Some oid \<Rightarrow>
              if oid \<noteq> [] then AList.update user_id (append_connection oid websocket scs) ac
              else AList.update user_id (append_connection ''all'' websocket scs) ac
          | None \<Rightarrow> AList.update user_id (append_connection ''all'' websocket scs) ac))"

text \<open>
  \<open>connect\<close> begins with \<open>await websocket.accept()\<close>. The call belongs to the
  transport: it succeeds on a socket that has not been accepted yet and raises
  \<open>RuntimeError\<close> on any later call for the same socket, before \<open>connect\<close> has
  written anything. The sockets accepted so far are part of the state, next to the
  registry.
\<close>

definition accept :: "websocket \<Rightarrow> websocket set \<Rightarrow> error + websocket set" where
  "accept websocket accepted =
     (if websocket \<in> accepted then Inl RuntimeError else Inr (insert websocket accepted))"

definition connect ::
  "websocket \<Rightarrow> string \<Rightarrow> string option \<Rightarrow> websocket set \<times> connections
   \<Rightarrow> error + websocket set \<times> connections" where
  "connect websocket user_id order_id state =
     (case accept websocket (fst state) of
        Inl e \<Rightarrow> Inl e
      | Inr accepted \<Rightarrow>
          Inr (accepted, register_connection websocket user_id order_id (snd state)))"

text \<open>
  \<open>conns.remove(websocket)\<close> removes the first occurrence and raises \<open>ValueError\<close>
  when there is none; it raises before anything is changed, so \<open>Inl\<close> stands for the
  exception with the registry left as it was.
\<close>

definition remove_connection :: "string \<Rightarrow> websocket \<Rightarrow> scopes \<Rightarrow> error + scopes" where
  "remove_connection key websocket scs =
     (case map_of scs key of
        None \<Rightarrow> Inr scs
      | Some conns \<Rightarrow>
          if websocket \<notin> set conns then Inl ValueError
          else if remove1 websocket conns = [] then Inr (AList.delete key scs)
          else Inr (AList.update key (remove1 websocket conns) scs))"

definition disconnect :: "websocket \<Rightarrow> string \<Rightarrow> string option \<Rightarrow> connections \<Rightarrow> error + connections" where
  "disconnect websocket user_id order_id active_connections =
     (case map_of active_connections user_id of
        None \<Rightarrow> Inr active_connections
      | Some scs \<Rightarrow>
          (case (if truthy order_id \<and> map_of scs (the order_id) \<noteq> None
                 then remove_connection (the order_id) websocket scs
                 else if map_of scs ''all'' \<noteq> None
                 then remove_connection ''all'' websocket scs
                 else Inr scs) of
             Inl e \<Rightarrow> Inl e
           | Inr scs' \<Rightarrow>
               if scs' = [] then Inr (AList.delete user_id active_connections)
               else Inr (AList.update user_id scs' active_connections)))"

definition send_all :: "websocket list \<Rightarrow> 'm \<Rightarrow> (websocket \<times> 'm) list" where
  "send_all conns message = map (\<lambda>connection. (connection, message)) conns"

definition send_order_update ::
  "connections \<Rightarrow> string \<Rightarrow> string \<Rightarrow> 'm \<Rightarrow> (websocket \<times> 'm) list" where
  "send_order_update active_connections user_id order_id message =
     (case map_of active_connections user_id of
        None \<Rightarrow> []
      | Some scs \<Rightarrow>
          (case map_of scs order_id of None \<Rightarrow> [] | Some conns \<Rightarrow> send_all conns message)
          @ (case map_of scs ''all'' of None \<Rightarrow> [] | Some conns \<Rightarrow> send_all conns message))"

definition broadcast_to_restaurant ::
  "connections \<Rightarrow> string \<Rightarrow> 'm \<Rightarrow> (websocket \<times> 'm) list" where
  "broadcast_to_restaurant active_connections restaurant_id message =
     (case map_of active_connections restaurant_id of
        None \<Rightarrow> []
      | Some scs \<Rightarrow>
          (case map_of scs ''all'' of None \<Rightarrow> [] | Some conns \<Rightarrow> send_all conns message))"

text \<open>
  \<open>get_user_by_id(user_id, db = Depends(get_db))\<close>. The second argument is \<open>Some\<close>
  session when the caller passes one; \<open>None\<close> is a call that leaves it out, and then
  \<open>db\<close> is the default value, the \<open>Depends\<close> marker object, which has no attribute
  \<open>query\<close>.
\<close>

definition get_user_by_id :: "string \<Rightarrow> 'a db option \<Rightarrow> error + UserModel option" where
  "get_user_by_id user_id session =
     (case session of
        None \<Rightarrow> Inl AttributeError
      | Some db \<Rightarrow> Inr (find (\<lambda>u. u_id u = user_id) (users db)))"

text \<open>
  \<open>broadcast_to_delivery_agents\<close> calls \<open>get_user_by_id(user_id)\<close> with one argument.
  The result is the messages sent so far and the exception that ended the loop, if any.
  The type of the session plays no part in the call, so it is fixed to \<open>unit db\<close>.
\<close>

fun broadcast_to_delivery_agents ::
  "connections \<Rightarrow> 'm \<Rightarrow> (websocket \<times> 'm) list \<times> error option" where
  "broadcast_to_delivery_agents [] message = ([], None)"
| "broadcast_to_delivery_agents ((user_id, scs) # rest) message =
     (case get_user_by_id user_id (None :: unit db option) of
        Inl e \<Rightarrow> ([], Some e)
      | Inr user \<Rightarrow>
          (let sent = (case user of
                         None \<Rightarrow> []
                       | Some u \<Rightarrow>
                           if u_role u = DELIVERY_AGENT
                           then (case map_of scs ''all'' of
                                   None \<Rightarrow> [] | Some conns \<Rightarrow> send_all conns message)
                           else [])
           in (case broadcast_to_delivery_agents rest message of
                 (later, e) \<Rightarrow> (sent @ later, e))))"

text \<open>Reading the registry: the connections of one (user, scope) pair.\<close>

definition scope_conns :: "connections \<Rightarrow> string \<Rightarrow> string \<Rightarrow> websocket list" where
  "scope_conns active_connections user_id key =
     (case map_of active_connections user_id of
        None \<Rightarrow> []
      | Some scs \<Rightarrow> (case map_of scs key of None \<Rightarrow> [] | Some conns \<Rightarrow> conns))"

definition has_scope :: "connections \<Rightarrow> string \<Rightarrow> string \<Rightarrow> bool" where
  "has_scope active_connections user_id key =
     (case map_of active_connections user_id of
        None \<Rightarrow> False
      | Some scs \<Rightarrow> map_of scs key \<noteq> None)"

text \<open>The scope under which \<open>connect\<close> registers a connection.\<close>

definition scope_key :: "string option \<Rightarrow> string" where
  "scope_key order_id = (case order_id of None \<Rightarrow> ''all'' | Some k \<Rightarrow> if k \<noteq> [] then k else ''all'')"

definition no_empty_entries :: "connections \<Rightarrow> bool" where
  "no_empty_entries active_connections =
     (\<forall>(user_id, scs) \<in> set active_connections.
        scs \<noteq> [] \<and> (\<forall>(key, conns) \<in> set scs. conns \<noteq> []))"

text \<open>The scope that \<open>disconnect\<close> removes from, by its \<open>if\<close>/\<open>elif\<close>: the order
  scope when an order id is given and that scope exists, else \<open>all\<close> when it exists.\<close>

definition matching_scope :: "connections \<Rightarrow> string \<Rightarrow> string option \<Rightarrow> string option" where
  "matching_scope ac user_id order_id =
     (case map_of ac user_id of
        None \<Rightarrow> None
      | Some scs \<Rightarrow>
          if truthy order_id \<and> map_of scs (the order_id) \<noteq> None then order_id
          else if map_of scs ''all'' \<noteq> None then Some ''all''
          else None)"

text \<open>The states the manager can be in: it starts with no socket accepted and an empty
  registry, and changes by a \<open>connect\<close> that returns and by a \<open>disconnect\<close> that
  returns.\<close>

inductive reachable_manager :: "websocket set \<times> connections \<Rightarrow> bool" where
  init: "reachable_manager ({}, [])"
| connected: "reachable_manager state \<Longrightarrow> connect websocket user_id order_id state = Inr state'
      \<Longrightarrow> reachable_manager state'"
| disconnected: "reachable_manager (accepted, ac) \<Longrightarrow> disconnect websocket user_id order_id ac = Inr ac'
      \<Longrightarrow> reachable_manager (accepted, ac')"

text \<open>A socket is registered at most once: the scope lists have no duplicates, hold
  accepted sockets only, and no two of them share a socket.\<close>

definition one_registration :: "websocket set \<Rightarrow> connections \<Rightarrow> bool" where
  "one_registration accepted ac =
     (\<forall>u k. distinct (scope_conns ac u k) \<and> set (scope_conns ac u k) \<subseteq> accepted
        \<and> (\<forall>u' k'. (u', k') \<noteq> (u, k)
              \<longrightarrow> set (scope_conns ac u k) \<inter> set (scope_conns ac u' k') = {}))"

definition no_empty_scopes :: "scopes \<Rightarrow> bool" where
  "no_empty_scopes scs = (\<forall>(key, conns) \<in> set scs. conns \<noteq> [])"

section \<open>Authentication helpers and arithmetic (app/utils.py)\<close>

text \<open>
  \<open>current_user\<close> is the row that \<open>get_current_user\<close> loaded for the bearer token;
  decoding the token is outside the model.
\<close>

definition get_current_active_user :: "UserModel \<Rightarrow> error + UserModel" where
  "get_current_active_user current_user =
     (if u_disabled current_user then Inl (HTTPException 400 Inactive_user)
      else Inr current_user)"

definition check_role :: "UserRole \<Rightarrow> UserModel \<Rightarrow> error + UserModel" where
  "check_role required_role current_user =
     (case get_current_active_user current_user of
        Inl e \<Rightarrow> Inl e
      | Inr user \<Rightarrow>
          if u_role user \<noteq> required_role \<and> u_role user \<noteq> ADMIN
          then Inl (HTTPException 403 (Operation_requires_role required_role))
          else Inr user)"

definition calculate_order_total ::
  "'a env \<Rightarrow> 'a db \<Rightarrow> OrderItemDict list \<Rightarrow> 'a::{zero,plus,times}" where
  "calculate_order_total env db items =
     foldl (\<lambda>total item.
              case find (\<lambda>m. m_id m = oi_item_id item) (menu_items db) of
                None \<Rightarrow> total
              | Some menu_item \<Rightarrow> total + m_price menu_item * float_of_int env (oi_quantity item))
           0 items"

section \<open>Commits under the declared key constraints\<close>

text \<open>
  \<open>db.add(row); db.commit()\<close> raises \<open>IntegrityError\<close>, and stores nothing, when the
  row breaks a constraint that \<open>models.py\<close> declares: a primary key or a
  \<open>unique=True\<close> column already present, or a \<open>ForeignKey\<close> that names no row.
\<close>

definition user_ids :: "'a db \<Rightarrow> string list" where
  "user_ids db = map u_id (users db)"

definition add_user :: "UserModel \<Rightarrow> 'a db \<Rightarrow> error + 'a db" where
  "add_user row db =
     (if u_id row \<in> set (user_ids db)
         \<or> u_username row \<in> set (map u_username (users db))
         \<or> u_email row \<in> set (map u_email (users db))
      then Inl IntegrityError
      else Inr (db\<lparr>users := users db @ [row]\<rparr>))"

definition add_menu_item :: "'a MenuItemModel \<Rightarrow> 'a db \<Rightarrow> error + 'a db" where
  "add_menu_item row db =
     (if m_id row \<in> set (map m_id (menu_items db))
         \<or> m_restaurant_id row \<notin> set (user_ids db)
      then Inl IntegrityError
      else Inr (db\<lparr>menu_items := menu_items db @ [row]\<rparr>))"

definition add_order :: "'a OrderModel \<Rightarrow> 'a db \<Rightarrow> error + 'a db" where
  "add_order row db =
     (if o_id row \<in> set (map o_id (orders db))
         \<or> o_customer_id row \<notin> set (user_ids db)
         \<or> o_restaurant_id row \<notin> set (user_ids db)
         \<or> (case o_delivery_agent_id row of None \<Rightarrow> False | Some a \<Rightarrow> a \<notin> set (user_ids db))
      then Inl IntegrityError
      else Inr (db\<lparr>orders := orders db @ [row]\<rparr>))"

definition add_payment :: "'a PaymentModel \<Rightarrow> 'a db \<Rightarrow> error + 'a db" where
  "add_payment row db =
     (if p_id row \<in> set (map p_id (payments db))
         \<or> p_order_id row \<in> set (map p_order_id (payments db))
         \<or> p_order_id row \<notin> set (map o_id (orders db))
      then Inl IntegrityError
      else Inr (db\<lparr>payments := payments db @ [row]\<rparr>))"

text \<open>Committing a changed row rewrites the row with its primary key.\<close>

definition store_menu_item :: "'a MenuItemModel \<Rightarrow> 'a db \<Rightarrow> 'a db" where
  "store_menu_item row db =
     db\<lparr>menu_items := map (\<lambda>m. if m_id m = m_id row then row else m) (menu_items db)\<rparr>"

definition store_order :: "'a OrderModel \<Rightarrow> 'a db \<Rightarrow> 'a db" where
  "store_order row db =
     db\<lparr>orders := map (\<lambda>r. if o_id r = o_id row then row else r) (orders db)\<rparr>"

text \<open>Generate mock payment (\<open>process_payment\<close>); \<open>payment_id\<close> is the uuid drawn.\<close>

definition process_payment ::
  "'a env \<Rightarrow> 'a db \<Rightarrow> string \<Rightarrow> 'a \<Rightarrow> string \<Rightarrow> error + ('a::times PaymentModel \<times> 'a db)" where
  "process_payment env db order_id total_amount payment_id =
     (let restaurant_share = total_amount * float_0_8 env;
          delivery_fee = total_amount * float_0_2 env;
          payment = \<lparr>p_id = payment_id, p_order_id = order_id, p_amount = total_amount,
                     p_restaurant_share = restaurant_share, p_delivery_fee = delivery_fee,
                     p_status = ''completed'', p_created_at = import_time env\<rparr>
      in (case add_payment payment db of
            Inl e \<Rightarrow> Inl e
          | Inr db' \<Rightarrow> Inr (payment, db')))"

section \<open>Routes (app/main.py)\<close>

text \<open>
  A handler returns its response (\<open>Inl\<close> for the exception that ended it) together
  with the database it leaves behind and, where it notifies, the messages sent. The
  uuids a handler draws, the password hash and the clock reading are arguments.
\<close>

definition register_user ::
  "'a db \<Rightarrow> UserCreate \<Rightarrow> string \<Rightarrow> string \<Rightarrow> (error + UserModel) \<times> 'a db" where
  "register_user db user user_id hashed_password =
     (case find (\<lambda>u. u_username u = uc_username user) (users db) of
        Some db_user \<Rightarrow> (Inl (HTTPException 400 Username_already_registered), db)
      | None \<Rightarrow>
          (let db_user = \<lparr>u_id = user_id, u_username = uc_username user, u_email = uc_email user,
                          u_role = uc_role user, u_hashed_password = hashed_password,
                          u_disabled = False\<rparr>
           in (case add_user db_user db of
                 Inl e \<Rightarrow> (Inl e, db)
               | Inr db' \<Rightarrow> (Inr db_user, db'))))"

definition startup_event :: "'a db \<Rightarrow> string \<Rightarrow> string \<Rightarrow> 'a db" where
  "startup_event db admin_id hashed_password =
     (case find (\<lambda>u. u_username u = ''admin'') (users db) of
        Some admin_user \<Rightarrow> db
      | None \<Rightarrow>
          (case add_user \<lparr>u_id = admin_id, u_username = ''admin'',
                          u_email = ''admin@fooddelivery.com'', u_role = ADMIN,
                          u_hashed_password = hashed_password, u_disabled = False\<rparr> db of
             Inl e \<Rightarrow> db
           | Inr db' \<Rightarrow> db'))"

definition create_menu_item ::
  "'a db \<Rightarrow> 'a MenuItemBase \<Rightarrow> UserModel \<Rightarrow> string \<Rightarrow> (error + 'a MenuItemModel) \<times> 'a db" where
  "create_menu_item db menu_item current_user item_id =
     (case check_role RESTAURANT current_user of
        Inl e \<Rightarrow> (Inl e, db)
      | Inr current_user \<Rightarrow>
          (let db_menu_item = \<lparr>m_id = item_id, m_restaurant_id = u_id current_user,
                               m_name = mb_name menu_item,
                               m_description = mb_description menu_item,
                               m_price = mb_price menu_item,
                               m_is_available = mb_is_available menu_item\<rparr>
           in (case add_menu_item db_menu_item db of
                 Inl e \<Rightarrow> (Inl e, db)
               | Inr db' \<Rightarrow> (Inr db_menu_item, db'))))"

definition update_menu_item ::
  "'a db \<Rightarrow> string \<Rightarrow> 'a MenuItemBase \<Rightarrow> UserModel \<Rightarrow> (error + 'a MenuItemModel) \<times> 'a db" where
  "update_menu_item db item_id menu_item current_user =
     (case check_role RESTAURANT current_user of
        Inl e \<Rightarrow> (Inl e, db)
      | Inr current_user \<Rightarrow>
          (case find (\<lambda>m. m_id m = item_id) (menu_items db) of
             None \<Rightarrow> (Inl (HTTPException 404 Menu_item_not_found), db)
           | Some db_menu_item \<Rightarrow>
               if m_restaurant_id db_menu_item \<noteq> u_id current_user \<and> u_role current_user \<noteq> ADMIN
               then (Inl (HTTPException 403 Not_authorized_to_update_this_menu_item), db)
               else (let db_menu_item = db_menu_item\<lparr>m_name := mb_name menu_item,
                            m_description := mb_description menu_item,
                            m_price := mb_price menu_item,
                            m_is_available := mb_is_available menu_item\<rparr>
                     in (Inr db_menu_item, store_menu_item db_menu_item db))))"

definition delete_menu_item ::
  "'a db \<Rightarrow> string \<Rightarrow> UserModel \<Rightarrow> (error + unit) \<times> 'a db" where
  "delete_menu_item db item_id current_user =
     (case check_role RESTAURANT current_user of
        Inl e \<Rightarrow> (Inl e, db)
      | Inr current_user \<Rightarrow>
          (case find (\<lambda>m. m_id m = item_id) (menu_items db) of
             None \<Rightarrow> (Inl (HTTPException 404 Menu_item_not_found), db)
           | Some db_menu_item \<Rightarrow>
               if m_restaurant_id db_menu_item \<noteq> u_id current_user \<and> u_role current_user \<noteq> ADMIN
               then (Inl (HTTPException 403 Not_authorized_to_delete_this_menu_item), db)
               else (Inr (), db\<lparr>menu_items :=
                        filter (\<lambda>m. m_id m \<noteq> m_id db_menu_item) (menu_items db)\<rparr>)))"

text \<open>The loop "Validate items exist" of \<open>create_order\<close>; it stops at the first raise.\<close>

fun validate_items :: "'a db \<Rightarrow> string \<Rightarrow> OrderItemDict list \<Rightarrow> error option" where
  "validate_items db restaurant_id [] = None"
| "validate_items db restaurant_id (item # items) =
     (case find (\<lambda>m. m_id m = oi_item_id item) (menu_items db) of
        None \<Rightarrow> Some (HTTPException 404 (Menu_item_id_not_found (oi_item_id item)))
      | Some menu_item \<Rightarrow>
          if m_restaurant_id menu_item \<noteq> restaurant_id
          then Some (HTTPException 400
                 (Menu_item_does_not_belong_to_the_selected_restaurant (oi_item_id item)))
          else validate_items db restaurant_id items)"

text \<open>
  \<open>create_order\<close> commits the order before it calls \<open>process_payment\<close>: when the
  payment's commit raises, the order stays.
\<close>

definition create_order ::
  "'a env \<Rightarrow> connections \<Rightarrow> 'a db \<Rightarrow> OrderCreate \<Rightarrow> UserModel \<Rightarrow> string \<Rightarrow> string \<Rightarrow> nat
   \<Rightarrow> (error + 'a::{zero,plus,times} OrderModel) \<times> 'a db \<times> (websocket \<times> 'a message) list" where
  "create_order env manager db order current_user order_id payment_id now =
     (case check_role CUSTOMER current_user of
        Inl e \<Rightarrow> (Inl e, db, [])
      | Inr current_user \<Rightarrow>
          (case find (\<lambda>u. u_id u = oc_restaurant_id order \<and> u_role u = RESTAURANT) (users db) of
             None \<Rightarrow> (Inl (HTTPException 404 Restaurant_not_found), db, [])
           | Some restaurant \<Rightarrow>
               (case validate_items db (oc_restaurant_id order) (oc_items order) of
                  Some e \<Rightarrow> (Inl e, db, [])
                | None \<Rightarrow>
                    (let total_amount = calculate_order_total env db (oc_items order);
                         db_order = \<lparr>o_id = order_id, o_customer_id = u_id current_user,
                                      o_restaurant_id = oc_restaurant_id order,
                                      o_delivery_agent_id = None, o_items = oc_items order,
                                      o_total_amount = total_amount, o_status = PLACED,
                                      o_created_at = now, o_updated_at = now\<rparr>
                     in (case add_order db_order db of
                           Inl e \<Rightarrow> (Inl e, db, [])
                         | Inr db1 \<Rightarrow>
                             (case process_payment env db1 order_id total_amount payment_id of
                                Inl e \<Rightarrow> (Inl e, db1, [])
                              | Inr (payment, db2) \<Rightarrow>
                                  (Inr db_order, db2,
                                   broadcast_to_restaurant manager (o_restaurant_id db_order)
                                     (New_order (o_id db_order) (o_customer_id db_order)
                                        (o_total_amount db_order) (o_created_at db_order)))))))))"

text \<open>
  The block "Ensure proper authorization for status updates" of \<open>update_order_status\<close>:
  the flag \<open>authorized\<close> and the request body, which the delivery-agent branch may
  change.
\<close>

definition authorization :: "'a OrderModel \<Rightarrow> OrderUpdate \<Rightarrow> UserModel \<Rightarrow> bool \<times> OrderUpdate" where
  "authorization order order_update current_user =
     (let role = u_role current_user; user_id = u_id current_user
      in if role = ADMIN then (True, order_update)
         else if role = RESTAURANT \<and> o_restaurant_id order = user_id
         then (if ou_status order_update \<in> set [ACCEPTED, ASSIGNED]
               then (True, order_update) else (False, order_update))
         else if role = DELIVERY_AGENT
                 \<and> (o_delivery_agent_id order = Some user_id \<or> o_status order = ASSIGNED)
         then (if ou_status order_update \<in> set [PICKED_UP, DELIVERED]
               then (True,
                     if ou_status order_update = PICKED_UP \<and> \<not> truthy (o_delivery_agent_id order)
                     then order_update\<lparr>ou_delivery_agent_id := Some user_id\<rparr>
                     else order_update)
               else (False, order_update))
         else (False, order_update))"

fun valid_transitions :: "OrderStatus \<Rightarrow> OrderStatus list" where
  "valid_transitions PLACED = [ACCEPTED]"
| "valid_transitions ACCEPTED = [ASSIGNED]"
| "valid_transitions ASSIGNED = [PICKED_UP]"
| "valid_transitions PICKED_UP = [DELIVERED]"
| "valid_transitions DELIVERED = []"

text \<open>
  The messages of a successful update, sent after the commit. An exception in the
  broadcast ends the handler, with the earlier messages already sent. In
  \<open>update_order_status\<close> below, the commit raises \<open>IntegrityError\<close> when the
  update writes a \<open>delivery_agent_id\<close> that is no user's id (the column is a
  foreign key to \<open>users.id\<close>).
\<close>

definition notify_update ::
  "connections \<Rightarrow> 'a OrderModel \<Rightarrow> (websocket \<times> 'a message) list \<times> error option" where
  "notify_update manager order =
     (let update_message = Order_update (o_id order) (o_status order) (o_updated_at order);
          to_customer = send_order_update manager (o_customer_id order) (o_id order) update_message;
          to_restaurant = send_order_update manager (o_restaurant_id order) (o_id order) update_message;
          to_agent = (case o_delivery_agent_id order of
                        None \<Rightarrow> []
                      | Some agent \<Rightarrow>
                          if agent \<noteq> []
                          then send_order_update manager agent (o_id order) update_message
                          else [])
      in if o_status order = ASSIGNED \<and> \<not> truthy (o_delivery_agent_id order)
         then (case broadcast_to_delivery_agents manager
                      (Order_available (o_id order) (o_restaurant_id order) (o_created_at order)) of
                 (to_agents, e) \<Rightarrow> (to_customer @ to_restaurant @ to_agent @ to_agents, e))
         else (to_customer @ to_restaurant @ to_agent, None))"

definition update_order_status ::
  "connections \<Rightarrow> 'a db \<Rightarrow> string \<Rightarrow> OrderUpdate \<Rightarrow> UserModel \<Rightarrow> nat
   \<Rightarrow> (error + 'a OrderModel) \<times> 'a db \<times> (websocket \<times> 'a message) list" where
  "update_order_status manager db order_id order_update current_user now =
     (case get_current_active_user current_user of
        Inl e \<Rightarrow> (Inl e, db, [])
      | Inr current_user \<Rightarrow>
          (case find (\<lambda>r. o_id r = order_id) (orders db) of
             None \<Rightarrow> (Inl (HTTPException 404 Order_not_found), db, [])
           | Some order \<Rightarrow>
               (case authorization order order_update current_user of
                  (authorized, order_update) \<Rightarrow>
                    if \<not> authorized
                    then (Inl (HTTPException 403 Not_authorized_to_update_this_order_status), db, [])
                    else if ou_status order_update \<notin> set (valid_transitions (o_status order))
                    then (Inl (HTTPException 400
                            (Invalid_status_transition (o_status order) (ou_status order_update))),
                          db, [])
                    else
                      (let order = order\<lparr>o_status := ou_status order_update,
                                 o_delivery_agent_id :=
                                   (if truthy (ou_delivery_agent_id order_update)
                                    then ou_delivery_agent_id order_update
                                    else o_delivery_agent_id order),
                                 o_updated_at := now\<rparr>
                       in if truthy (ou_delivery_agent_id order_update)
                             \<and> the (ou_delivery_agent_id order_update) \<notin> set (user_ids db)
                          then (Inl IntegrityError, db, [])
                          else (case notify_update manager order of
                                  (sent, None) \<Rightarrow> (Inr order, store_order order db, sent)
                                | (sent, Some e) \<Rightarrow> (Inl e, store_order order db, sent))))))"

definition create_payment ::
  "'a env \<Rightarrow> 'a db \<Rightarrow> string \<Rightarrow> UserModel \<Rightarrow> string \<Rightarrow> (error + 'a::times PaymentModel) \<times> 'a db" where
  "create_payment env db order_id current_user payment_id =
     (case check_role CUSTOMER current_user of
        Inl e \<Rightarrow> (Inl e, db)
      | Inr current_user \<Rightarrow>
          (case find (\<lambda>r. o_id r = order_id) (orders db) of
             None \<Rightarrow> (Inl (HTTPException 404 Order_not_found), db)
           | Some order \<Rightarrow>
               if o_customer_id order \<noteq> u_id current_user
               then (Inl (HTTPException 403 Not_authorized_to_process_payment_for_this_order), db)
               else (case find (\<lambda>p. p_order_id p = order_id) (payments db) of
                       Some existing_payment \<Rightarrow> (Inr existing_payment, db)
                     | None \<Rightarrow>
                         (case process_payment env db order_id (o_total_amount order) payment_id of
                            Inl e \<Rightarrow> (Inl e, db)
                          | Inr (payment, db') \<Rightarrow> (Inr payment, db')))))"

section \<open>The databases the routes can produce\<close>

definition empty_db :: "'a db" where
  "empty_db = \<lparr>users = [], menu_items = [], orders = [], payments = []\<rparr>"

text \<open>One request, or the start-up hook, takes the database from \<open>db\<close> to \<open>db'\<close>,
  whatever the request and whoever the requester.\<close>

inductive db_step :: "'a::{zero,plus,times} env \<Rightarrow> 'a db \<Rightarrow> 'a db \<Rightarrow> bool" for env where
  step_register:
    "register_user db user user_id hashed_password = (response, db') \<Longrightarrow> db_step env db db'"
| step_startup:
    "startup_event db admin_id hashed_password = db' \<Longrightarrow> db_step env db db'"
| step_create_menu_item:
    "create_menu_item db menu_item current_user new_id = (response, db') \<Longrightarrow> db_step env db db'"
| step_update_menu_item:
    "update_menu_item db an_id menu_item current_user = (response, db') \<Longrightarrow> db_step env db db'"
| step_delete_menu_item:
    "delete_menu_item db an_id current_user = (response, db') \<Longrightarrow> db_step env db db'"
| step_create_order:
    "create_order env manager db order current_user order_id payment_id now = (response, db', sent)
     \<Longrightarrow> db_step env db db'"
| step_update_order_status:
    "update_order_status manager db order_id order_update current_user now = (response, db', sent)
     \<Longrightarrow> db_step env db db'"
| step_create_payment:
    "create_payment env db order_id current_user payment_id = (payment_response, db')
     \<Longrightarrow> db_step env db db'"

inductive reachable_db :: "'a::{zero,plus,times} env \<Rightarrow> 'a db \<Rightarrow> bool" for env where
  reach_empty: "reachable_db env empty_db"
| reach_step: "reachable_db env db \<Longrightarrow> db_step env db db' \<Longrightarrow> reachable_db env db'"

text \<open>The line amounts of an order as the specification words them: for each line item,
  the price of the menu item it names times its quantity (\<open>None\<close> when the item names
  no menu item).\<close>

definition line_amounts ::
  "'a env \<Rightarrow> 'a db \<Rightarrow> OrderItemDict list \<Rightarrow> 'a::times option list" where
  "line_amounts env db items =
     map (\<lambda>item. map_option (\<lambda>m. m_price m * float_of_int env (oi_quantity item))
                    (find (\<lambda>m. m_id m = oi_item_id item) (menu_items db))) items"

text \<open>What a row of \<open>orders\<close> may become in one step: it keeps its id and its total,
  and its status stays or moves to a status that \<open>valid_transitions\<close> lists.\<close>

definition order_evolves :: "'a OrderModel \<Rightarrow> 'a OrderModel \<Rightarrow> bool" where
  "order_evolves old new =
     (o_id new = o_id old \<and> o_total_amount new = o_total_amount old
      \<and> (o_status new = o_status old \<or> o_status new \<in> set (valid_transitions (o_status old))))"

text \<open>A payment row agrees with its order and carries the 80/20 split.\<close>

definition settled :: "'a::times env \<Rightarrow> 'a db \<Rightarrow> 'a PaymentModel \<Rightarrow> bool" where
  "settled env db payment =
     (\<exists>order \<in> set (orders db).
        o_id order = p_order_id payment
        \<and> p_amount payment = o_total_amount order
        \<and> p_restaurant_share payment = p_amount payment * float_0_8 env
        \<and> p_delivery_fee payment = p_amount payment * float_0_2 env)"

definition db_invariant :: "'a::times env \<Rightarrow> 'a db \<Rightarrow> bool" where
  "db_invariant env db =
     (distinct (map o_id (orders db))
      \<and> distinct (map p_order_id (payments db))
      \<and> (\<forall>payment \<in> set (payments db). settled env db payment))"

text \<open>The status chain as the specification draws it.\<close>

definition status_chain :: "(OrderStatus \<times> OrderStatus) list" where
  "status_chain =
     [(PLACED, ACCEPTED), (ACCEPTED, ASSIGNED), (ASSIGNED, PICKED_UP), (PICKED_UP, DELIVERED)]"

section \<open>A worked scenario\<close>

text \<open>
  The scenario of the specification, over the reals: restaurant \<open>R\<close> offers a burger at
  10.00, customer \<open>C\<close> orders two, \<open>R\<close> accepts the order and hands it to
  delivery; \<open>A\<close> and \<open>B\<close> are delivery agents. The values below are the databases
  after each request; that the routes produce them is proved further down.
\<close>

definition env0 :: "real env" where
  "env0 = \<lparr>float_of_int = of_int, float_0_8 = 0.8, float_0_2 = 0.2, import_time = 0\<rparr>"

definition user_R :: UserModel where
  "user_R = \<lparr>u_id = ''R'', u_username = ''r'', u_email = ''r@x'', u_role = RESTAURANT,
              u_hashed_password = ''h'', u_disabled = False\<rparr>"

definition user_C :: UserModel where
  "user_C = \<lparr>u_id = ''C'', u_username = ''c'', u_email = ''c@x'', u_role = CUSTOMER,
              u_hashed_password = ''h'', u_disabled = False\<rparr>"

definition user_A :: UserModel where
  "user_A = \<lparr>u_id = ''A'', u_username = ''a'', u_email = ''a@x'', u_role = DELIVERY_AGENT,
              u_hashed_password = ''h'', u_disabled = False\<rparr>"

definition user_B :: UserModel where
  "user_B = \<lparr>u_id = ''B'', u_username = ''b'', u_email = ''b@x'', u_role = DELIVERY_AGENT,
              u_hashed_password = ''h'', u_disabled = False\<rparr>"

definition burger :: "real MenuItemModel" where
  "burger = \<lparr>m_id = ''m1'', m_restaurant_id = ''R'', m_name = ''Burger'', m_description = ''b'',
              m_price = 10, m_is_available = True\<rparr>"

definition two_burgers :: OrderCreate where
  "two_burgers = \<lparr>oc_restaurant_id = ''R'',
                   oc_items = [\<lparr>oi_item_id = ''m1'', oi_quantity = 2\<rparr>]\<rparr>"

definition order_placed :: "real OrderModel" where
  "order_placed = \<lparr>o_id = ''o1'', o_customer_id = ''C'', o_restaurant_id = ''R'',
                    o_delivery_agent_id = None,
                    o_items = [\<lparr>oi_item_id = ''m1'', oi_quantity = 2\<rparr>],
                    o_total_amount = 20, o_status = PLACED,
                    o_created_at = 1, o_updated_at = 1\<rparr>"

definition payment_1 :: "real PaymentModel" where
  "payment_1 = \<lparr>p_id = ''p1'', p_order_id = ''o1'', p_amount = 20, p_restaurant_share = 16,
                 p_delivery_fee = 4, p_status = ''completed'', p_created_at = 0\<rparr>"

definition order_accepted :: "real OrderModel" where
  "order_accepted = order_placed\<lparr>o_status := ACCEPTED, o_updated_at := 2\<rparr>"

definition order_assigned :: "real OrderModel" where
  "order_assigned = order_accepted\<lparr>o_status := ASSIGNED, o_updated_at := 3\<rparr>"

definition order_assigned_B :: "real OrderModel" where
  "order_assigned_B = order_accepted\<lparr>o_status := ASSIGNED, o_delivery_agent_id := Some ''B'',
                        o_updated_at := 3\<rparr>"

definition order_picked_B :: "real OrderModel" where
  "order_picked_B = order_assigned_B\<lparr>o_status := PICKED_UP, o_updated_at := 4\<rparr>"

definition db_users :: "real db" where
  "db_users = \<lparr>users = [user_R, user_C, user_A, user_B], menu_items = [], orders = [],
                payments = []\<rparr>"

definition db_menu :: "real db" where
  "db_menu = db_users\<lparr>menu_items := [burger]\<rparr>"

definition db_placed :: "real db" where
  "db_placed = db_menu\<lparr>orders := [order_placed], payments := [payment_1]\<rparr>"

definition db_repriced :: "real db" where
  "db_repriced = db_placed\<lparr>menu_items := [burger\<lparr>m_price := 99\<rparr>]\<rparr>"

definition db_accepted :: "real db" where
  "db_accepted = db_placed\<lparr>orders := [order_accepted]\<rparr>"

definition db_assigned :: "real db" where
  "db_assigned = db_placed\<lparr>orders := [order_assigned]\<rparr>"

definition db_assigned_B :: "real db" where
  "db_assigned_B = db_placed\<lparr>orders := [order_assigned_B]\<rparr>"

definition db_picked_B :: "real db" where
  "db_picked_B = db_placed\<lparr>orders := [order_picked_B]\<rparr>"

text \<open>Agent \<open>A\<close> holds one connection, websocket 7, in the scope \<open>all\<close>.\<close>

definition agent_A_connected :: connections where
  "agent_A_connected = register_connection 7 ''A'' None []"

text \<open>Sockets 1 and 2 follow order \<open>o1\<close> for user \<open>C\<close>, socket 3 is \<open>C\<close>'s global
  connection and socket 4 is \<open>R\<close>'s.\<close>

definition four_sockets :: connections where
  "four_sockets = [(''C'', [(''o1'', [1, 2]), (''all'', [3])]), (''R'', [(''all'', [4])])]"

section \<open>Facts about the connection manager\<close>

lemma send_order_update_scopes:
  "send_order_update ac u k m = send_all (scope_conns ac u k @ scope_conns ac u ''all'') m"
  by (simp add: send_order_update_def scope_conns_def send_all_def split: option.splits)

lemma count_send_all: "count_list (send_all cs m) (c, m) = count_list cs c"
  by (induction cs) (simp_all add: send_all_def)

lemma set_send_all: "(c, m) \<in> set (send_all cs m') \<longleftrightarrow> c \<in> set cs \<and> m = m'"
  by (auto simp: send_all_def)

lemma set_update_subset: "set (AList.update k v al) \<subseteq> insert (k, v) (set al)"
  by (induction al) auto

lemma set_delete_subset: "set (AList.delete k al) \<subseteq> set al"
  by (induction al) auto

lemma no_empty_scopes_update:
  "no_empty_scopes scs \<Longrightarrow> conns \<noteq> [] \<Longrightarrow> no_empty_scopes (AList.update k conns scs)"
  unfolding no_empty_scopes_def using set_update_subset [of k conns scs] by auto

lemma no_empty_scopes_delete:
  "no_empty_scopes scs \<Longrightarrow> no_empty_scopes (AList.delete k scs)"
  unfolding no_empty_scopes_def using set_delete_subset [of k scs] by auto

lemma no_empty_entries_alt:
  "no_empty_entries ac \<longleftrightarrow> (\<forall>(user_id, scs) \<in> set ac. scs \<noteq> [] \<and> no_empty_scopes scs)"
  by (simp add: no_empty_entries_def no_empty_scopes_def)

lemma no_empty_entries_update:
  "no_empty_entries ac \<Longrightarrow> scs \<noteq> [] \<Longrightarrow> no_empty_scopes scs \<Longrightarrow> no_empty_entries (AList.update u scs ac)"
  unfolding no_empty_entries_alt using set_update_subset [of u scs ac] by auto

lemma no_empty_entries_delete:
  "no_empty_entries ac \<Longrightarrow> no_empty_entries (AList.delete u ac)"
  unfolding no_empty_entries_alt using set_delete_subset [of u ac] by auto

lemma no_empty_entries_lookup:
  "no_empty_entries ac \<Longrightarrow> map_of ac u = Some scs \<Longrightarrow> scs \<noteq> [] \<and> no_empty_scopes scs"
  unfolding no_empty_entries_alt by (auto dest: map_of_SomeD)

lemma append_connection_no_empty:
  "no_empty_scopes scs \<Longrightarrow> no_empty_scopes (append_connection k w scs)"
proof -
  assume a: "no_empty_scopes scs"
  have "set (AList.update k [] scs) \<subseteq> insert (k, []) (set scs)" by (rule set_update_subset)
  show ?thesis
  proof (cases "map_of scs k")
    case None
    have "append_connection k w scs = AList.update k [w] scs"
      using None by (simp add: append_connection_def update_conv')
    then show ?thesis using a by (simp add: no_empty_scopes_update)
  next
    case (Some conns)
    then have "append_connection k w scs = AList.update k (conns @ [w]) scs"
      by (simp add: append_connection_def)
    then show ?thesis using a by (simp add: no_empty_scopes_update)
  qed
qed

lemma append_connection_nonempty: "append_connection k w scs \<noteq> []"
  by (simp add: append_connection_def Let_def)

lemma register_connection_no_empty:
  assumes "no_empty_entries ac"
  shows "no_empty_entries (register_connection w u oid ac)"
proof -
  define key where "key = (case oid of None \<Rightarrow> ''all'' | Some k \<Rightarrow> if k \<noteq> [] then k else ''all'')"
  show ?thesis
  proof (cases "map_of ac u")
    case None
    have "register_connection w u oid ac = AList.update u (append_connection key w []) ac"
      using None by (simp add: register_connection_def key_def update_conv' split: option.splits)
    moreover have "no_empty_scopes (append_connection key w [])"
      by (rule append_connection_no_empty) (simp add: no_empty_scopes_def)
    ultimately show ?thesis
      using assms by (simp add: no_empty_entries_update append_connection_nonempty)
  next
    case (Some scs)
    have "register_connection w u oid ac = AList.update u (append_connection key w scs) ac"
      using Some by (simp add: register_connection_def key_def split: option.splits)
    moreover have "no_empty_scopes (append_connection key w scs)"
      using no_empty_entries_lookup [OF assms Some] by (simp add: append_connection_no_empty)
    ultimately show ?thesis
      using assms by (simp add: no_empty_entries_update append_connection_nonempty)
  qed
qed

lemma remove_connection_no_empty:
  "no_empty_scopes scs \<Longrightarrow> remove_connection k w scs = Inr scs' \<Longrightarrow> no_empty_scopes scs'"
  by (auto simp: remove_connection_def no_empty_scopes_update no_empty_scopes_delete
      split: option.splits if_splits)

lemma remove_connection_lookup:
  assumes "remove_connection k w scs = Inr scs'" "map_of scs k = Some conns"
  shows "map_of scs' = (map_of scs)(k := if remove1 w conns = [] then None else Some (remove1 w conns))"
  using assms by (auto simp: remove_connection_def update_conv' delete_conv' split: if_splits)

lemma remove_connection_Nil:
  assumes "remove_connection k w scs = Inr []" "map_of scs k = Some conns"
  shows "remove1 w conns = []"
  using assms by (auto simp: remove_connection_def split: if_splits)

lemma disconnect_no_empty:
  assumes "no_empty_entries ac" "disconnect w u oid ac = Inr ac'"
  shows "no_empty_entries ac'"
proof (cases "map_of ac u")
  case None
  then show ?thesis using assms by (simp add: disconnect_def)
next
  case (Some scs)
  note ne = no_empty_entries_lookup [OF assms(1) Some]
  from assms(2) Some obtain scs' where
    r: "(if truthy oid \<and> map_of scs (the oid) \<noteq> None
         then remove_connection (the oid) w scs
         else if map_of scs ''all'' \<noteq> None then remove_connection ''all'' w scs else Inr scs) = Inr scs'"
    and ac': "ac' = (if scs' = [] then AList.delete u ac else AList.update u scs' ac)"
    by (auto simp: disconnect_def split: sum.splits if_splits)
  from r ne have "no_empty_scopes scs'"
    by (auto split: if_splits dest: remove_connection_no_empty)
  then show ?thesis
    using ac' assms(1) by (simp add: no_empty_entries_update no_empty_entries_delete)
qed

lemma disconnect_scope:
  assumes d: "disconnect w u oid ac = Inr ac'"
    and s: "map_of ac u = Some scs"
    and r: "remove_connection k w scs = Inr scs'"
    and k: "map_of scs k = Some conns"
    and sel: "(if truthy oid \<and> map_of scs (the oid) \<noteq> None
         then remove_connection (the oid) w scs
         else if map_of scs ''all'' \<noteq> None then remove_connection ''all'' w scs else Inr scs)
         = remove_connection k w scs"
  shows "scope_conns ac' u k = remove1 w conns \<and> (has_scope ac' u k \<longleftrightarrow> remove1 w conns \<noteq> [])"
proof -
  have ac': "ac' = (if scs' = [] then AList.delete u ac else AList.update u scs' ac)"
    using d s r sel by (auto simp: disconnect_def split: if_splits)
  have look: "map_of scs' = (map_of scs)(k := if remove1 w conns = [] then None else Some (remove1 w conns))"
    by (rule remove_connection_lookup [OF r k])
  show ?thesis
  proof (cases "scs' = []")
    case True
    with r k have "remove1 w conns = []" by (simp add: remove_connection_Nil)
    moreover have "map_of ac' u = None" using ac' True by (simp add: delete_conv')
    ultimately show ?thesis by (simp add: scope_conns_def has_scope_def)
  next
    case False
    then have "map_of ac' u = Some scs'" using ac' by (simp add: update_conv')
    then show ?thesis using look by (simp add: scope_conns_def has_scope_def)
  qed
qed

section \<open>Facts about the routes and the databases they produce\<close>

lemma add_payment_Inr:
  "add_payment row db = Inr db' \<Longrightarrow>
     db' = db\<lparr>payments := payments db @ [row]\<rparr>
     \<and> p_id row \<notin> set (map p_id (payments db))
     \<and> p_order_id row \<notin> set (map p_order_id (payments db))
     \<and> p_order_id row \<in> set (map o_id (orders db))"
  by (auto simp: add_payment_def split: if_splits)

lemma add_order_Inr:
  "add_order row db = Inr db' \<Longrightarrow>
     db' = db\<lparr>orders := orders db @ [row]\<rparr> \<and> o_id row \<notin> set (map o_id (orders db))"
  by (auto simp: add_order_def split: if_splits)

lemma process_payment_Inr:
  "process_payment env db order_id total_amount payment_id = Inr (payment, db') \<Longrightarrow>
     payment = \<lparr>p_id = payment_id, p_order_id = order_id, p_amount = total_amount,
                 p_restaurant_share = total_amount * float_0_8 env,
                 p_delivery_fee = total_amount * float_0_2 env,
                 p_status = ''completed'', p_created_at = import_time env\<rparr>
     \<and> db' = db\<lparr>payments := payments db @ [payment]\<rparr>
     \<and> order_id \<notin> set (map p_order_id (payments db))
     \<and> order_id \<in> set (map o_id (orders db))"
  by (auto simp: process_payment_def Let_def split: sum.splits dest!: add_payment_Inr)

lemma register_user_tables:
  "register_user db user user_id hp = (r, db') \<Longrightarrow>
     orders db' = orders db \<and> payments db' = payments db \<and> menu_items db' = menu_items db"
  by (auto simp: register_user_def add_user_def Let_def split: option.splits sum.splits if_splits)

lemma startup_event_tables:
  "startup_event db admin_id hp = db' \<Longrightarrow>
     orders db' = orders db \<and> payments db' = payments db \<and> menu_items db' = menu_items db"
  by (auto simp: startup_event_def add_user_def Let_def split: option.splits sum.splits if_splits)

lemma create_menu_item_tables:
  "create_menu_item db menu_item current_user new_id = (r, db') \<Longrightarrow>
     orders db' = orders db \<and> payments db' = payments db \<and> users db' = users db"
  by (auto simp: create_menu_item_def add_menu_item_def Let_def split: option.splits sum.splits if_splits)

lemma update_menu_item_tables:
  "update_menu_item db an_id menu_item current_user = (r, db') \<Longrightarrow>
     orders db' = orders db \<and> payments db' = payments db \<and> users db' = users db"
  by (auto simp: update_menu_item_def store_menu_item_def Let_def split: option.splits sum.splits if_splits)

lemma delete_menu_item_tables:
  "delete_menu_item db an_id current_user = (r, db') \<Longrightarrow>
     orders db' = orders db \<and> payments db' = payments db \<and> users db' = users db"
  by (auto simp: delete_menu_item_def Let_def split: option.splits sum.splits if_splits)

lemma create_order_tables:
  assumes "create_order env manager db order current_user order_id payment_id now = (r, db', sent)"
  shows "db' = db
     \<or> (\<exists>row. o_id row = order_id \<and> o_status row = PLACED
           \<and> o_total_amount row = calculate_order_total env db (oc_items order)
           \<and> order_id \<notin> set (map o_id (orders db))
           \<and> orders db' = orders db @ [row]
           \<and> (payments db' = payments db
               \<or> (\<exists>payment. payments db' = payments db @ [payment]
                    \<and> p_order_id payment = order_id
                    \<and> p_amount payment = o_total_amount row
                    \<and> p_restaurant_share payment = p_amount payment * float_0_8 env
                    \<and> p_delivery_fee payment = p_amount payment * float_0_2 env
                    \<and> order_id \<notin> set (map p_order_id (payments db)))))"
  using assms
  by (auto simp: create_order_def Let_def split: option.splits sum.splits prod.splits
      dest!: add_order_Inr process_payment_Inr)

lemma authorization_status:
  "authorization order order_update current_user = (a, order_update') \<Longrightarrow>
     ou_status order_update' = ou_status order_update"
  by (auto simp: authorization_def Let_def split: if_splits)

lemma update_order_status_tables:
  assumes "update_order_status manager db order_id order_update current_user now = (r, db', sent)"
  shows "db' = db
     \<or> (\<exists>order row. find (\<lambda>r. o_id r = order_id) (orders db) = Some order
           \<and> db' = store_order row db
           \<and> o_id row = o_id order \<and> o_total_amount row = o_total_amount order
           \<and> o_status row = ou_status order_update
           \<and> ou_status order_update \<in> set (valid_transitions (o_status order)))"
  using assms
  by (auto simp: update_order_status_def Let_def split: option.splits sum.splits prod.splits if_splits
      dest!: authorization_status)

lemma create_payment_tables:
  assumes "create_payment env db order_id current_user payment_id = (r, db')"
  shows "db' = db
     \<or> (\<exists>order payment. find (\<lambda>r. o_id r = order_id) (orders db) = Some order
           \<and> db' = db\<lparr>payments := payments db @ [payment]\<rparr>
           \<and> p_order_id payment = order_id
           \<and> p_amount payment = o_total_amount order
           \<and> p_restaurant_share payment = p_amount payment * float_0_8 env
           \<and> p_delivery_fee payment = p_amount payment * float_0_2 env
           \<and> order_id \<notin> set (map p_order_id (payments db)))"
  using assms
  by (auto simp: create_payment_def Let_def split: option.splits sum.splits prod.splits if_splits
      dest!: process_payment_Inr)


lemma distinct_map_eq:
  "distinct (map f xs) \<Longrightarrow> x \<in> set xs \<Longrightarrow> y \<in> set xs \<Longrightarrow> f x = f y \<Longrightarrow> x = y"
  by (auto simp: distinct_map dest: inj_onD)

lemma find_Some_mem: "find P xs = Some x \<Longrightarrow> x \<in> set xs \<and> P x"
  by (auto simp: find_Some_iff)

lemma order_evolves_refl: "order_evolves x x"
  by (simp add: order_evolves_def)

lemma store_order_ids: "o_id row = k \<Longrightarrow> map o_id (orders (store_order row db)) = map o_id (orders db)"
  by (simp add: store_order_def comp_def cong: map_cong)

lemma store_order_tables:
  "payments (store_order row db) = payments db \<and> users (store_order row db) = users db
   \<and> menu_items (store_order row db) = menu_items db"
  by (simp add: store_order_def)

lemma db_step_cases:
  assumes "db_step env db db'"
  shows "(orders db' = orders db \<and> payments db' = payments db)
    \<or> (\<exists>row. o_id row \<notin> set (map o_id (orders db)) \<and> o_status row = PLACED
          \<and> orders db' = orders db @ [row]
          \<and> (payments db' = payments db
              \<or> (\<exists>payment. payments db' = payments db @ [payment]
                   \<and> p_order_id payment = o_id row
                   \<and> p_amount payment = o_total_amount row
                   \<and> p_restaurant_share payment = p_amount payment * float_0_8 env
                   \<and> p_delivery_fee payment = p_amount payment * float_0_2 env
                   \<and> o_id row \<notin> set (map p_order_id (payments db)))))
    \<or> (\<exists>order row. find (\<lambda>r. o_id r = o_id row) (orders db) = Some order
          \<and> order_evolves order row
          \<and> orders db' = orders (store_order row db) \<and> payments db' = payments db)
    \<or> (\<exists>order payment. order \<in> set (orders db) \<and> orders db' = orders db
          \<and> payments db' = payments db @ [payment]
          \<and> p_order_id payment = o_id order
          \<and> p_amount payment = o_total_amount order
          \<and> p_restaurant_share payment = p_amount payment * float_0_8 env
          \<and> p_delivery_fee payment = p_amount payment * float_0_2 env
          \<and> o_id order \<notin> set (map p_order_id (payments db)))"
  using assms
proof cases
  case (step_register user user_id hashed_password response)
  then show ?thesis using register_user_tables by blast
next
  case (step_startup admin_id hashed_password)
  then show ?thesis using startup_event_tables by blast
next
  case (step_create_menu_item menu_item current_user new_id response)
  then show ?thesis using create_menu_item_tables by blast
next
  case (step_update_menu_item an_id menu_item current_user response)
  then show ?thesis using update_menu_item_tables by blast
next
  case (step_delete_menu_item an_id current_user response)
  then show ?thesis using delete_menu_item_tables by blast
next
  case (step_create_order manager order current_user order_id payment_id now response sent)
  from create_order_tables [OF this] show ?thesis
    by (elim disjE exE conjE) (simp, blast, blast)
next
  case (step_update_order_status manager order_id order_update current_user now response sent)
  from update_order_status_tables [OF this] show ?thesis
  proof (elim disjE exE conjE)
    assume "db' = db" then show ?thesis by simp
  next
    fix order row
    assume h: "find (\<lambda>r. o_id r = order_id) (orders db) = Some order" "db' = store_order row db"
      "o_id row = o_id order" "o_total_amount row = o_total_amount order"
      "o_status row = ou_status order_update"
      "ou_status order_update \<in> set (valid_transitions (o_status order))"
    from h(1) have "o_id order = order_id" by (auto dest: find_Some_mem)
    with h have "find (\<lambda>r. o_id r = o_id row) (orders db) = Some order" "order_evolves order row"
      by (simp_all add: order_evolves_def)
    with h(2) show ?thesis by (auto simp: store_order_tables)
  qed
next
  case (step_create_payment order_id current_user payment_id payment_response)
  from create_payment_tables [OF this] show ?thesis
  proof (elim disjE exE conjE)
    assume "db' = db" then show ?thesis by simp
  next
    fix order payment
    assume h: "find (\<lambda>r. o_id r = order_id) (orders db) = Some order"
      "db' = db\<lparr>payments := payments db @ [payment]\<rparr>"
      "p_order_id payment = order_id" "p_amount payment = o_total_amount order"
      "p_restaurant_share payment = p_amount payment * float_0_8 env"
      "p_delivery_fee payment = p_amount payment * float_0_2 env"
      "order_id \<notin> set (map p_order_id (payments db))"
    from h(1) have "order \<in> set (orders db)" "o_id order = order_id" by (auto dest: find_Some_mem)
    with h show ?thesis
      by (intro disjI2) (rule exI [of _ order], rule exI [of _ payment], simp)
  qed
qed


lemma store_order_evolves:
  assumes d: "distinct (map o_id (orders db))"
    and f: "find (\<lambda>r. o_id r = o_id row) (orders db) = Some order"
    and e: "order_evolves order row"
    and m: "old \<in> set (orders db)"
  shows "\<exists>new \<in> set (orders (store_order row db)). order_evolves old new"
proof (cases "o_id old = o_id row")
  case True
  from f have "order \<in> set (orders db)" "o_id order = o_id row" by (auto dest: find_Some_mem)
  with d m True have "old = order" by (auto intro: distinct_map_eq [of o_id])
  moreover have "row \<in> set (orders (store_order row db))"
    using m True by (force simp: store_order_def)
  ultimately show ?thesis using e by blast
next
  case False
  then have "old \<in> set (orders (store_order row db))"
    using m by (force simp: store_order_def)
  then show ?thesis using order_evolves_refl by blast
qed

lemma db_step_order:
  assumes "distinct (map o_id (orders db))" "db_step env db db'" "old \<in> set (orders db)"
  shows "\<exists>new \<in> set (orders db'). order_evolves old new"
  using db_step_cases [OF assms(2)]
proof (elim disjE exE conjE)
  fix order row
  assume "find (\<lambda>r. o_id r = o_id row) (orders db) = Some order" "order_evolves order row"
    "orders db' = orders (store_order row db)"
  then show ?thesis using store_order_evolves [OF assms(1) _ _ assms(3)] by simp
qed (use assms(3) order_evolves_refl in auto)

lemma db_step_distinct_orders:
  assumes "distinct (map o_id (orders db))" "db_step env db db'"
  shows "distinct (map o_id (orders db'))"
  using db_step_cases [OF assms(2)] assms(1)
  by (elim disjE exE conjE) (auto simp: store_order_ids)

lemma db_step_distinct_payments:
  assumes "distinct (map p_order_id (payments db))" "db_step env db db'"
  shows "distinct (map p_order_id (payments db'))"
  using db_step_cases [OF assms(2)] assms(1)
  by (elim disjE exE conjE) auto

lemma settled_step:
  assumes "distinct (map o_id (orders db))" "db_step env db db'" "settled env db payment"
  shows "settled env db' payment"
proof -
  from assms(3) obtain order where o: "order \<in> set (orders db)" "o_id order = p_order_id payment"
    "p_amount payment = o_total_amount order"
    "p_restaurant_share payment = p_amount payment * float_0_8 env"
    "p_delivery_fee payment = p_amount payment * float_0_2 env"
    by (auto simp: settled_def)
  from db_step_order [OF assms(1,2) o(1)] obtain new where
    "new \<in> set (orders db')" "order_evolves order new" by blast
  with o show ?thesis by (auto simp: settled_def order_evolves_def)
qed

lemma db_step_invariant:
  assumes inv: "db_invariant env db" and st: "db_step env db db'"
  shows "db_invariant env db'"
proof -
  from inv have d: "distinct (map o_id (orders db))"
    and dp: "distinct (map p_order_id (payments db))"
    and se: "\<And>p. p \<in> set (payments db) \<Longrightarrow> settled env db p"
    by (simp_all add: db_invariant_def)
  have old: "\<And>p. p \<in> set (payments db) \<Longrightarrow> settled env db' p"
    using se settled_step [OF d st] by blast
  have "\<forall>p \<in> set (payments db'). settled env db' p"
    using db_step_cases [OF st]
  proof (elim disjE exE conjE)
    assume "orders db' = orders db" "payments db' = payments db"
    then show ?thesis using old by simp
  next
    fix row
    assume "orders db' = orders db @ [row]" "payments db' = payments db"
    then show ?thesis using old by simp
  next
    fix row payment
    assume "orders db' = orders db @ [row]" "payments db' = payments db @ [payment]"
      "p_order_id payment = o_id row" "p_amount payment = o_total_amount row"
      "p_restaurant_share payment = p_amount payment * float_0_8 env"
      "p_delivery_fee payment = p_amount payment * float_0_2 env"
    then show ?thesis using old by (auto simp: settled_def)
  next
    fix order row
    assume "payments db' = payments db"
    then show ?thesis using old by simp
  next
    fix order payment
    assume "order \<in> set (orders db)" "orders db' = orders db"
      "payments db' = payments db @ [payment]"
      "p_order_id payment = o_id order" "p_amount payment = o_total_amount order"
      "p_restaurant_share payment = p_amount payment * float_0_8 env"
      "p_delivery_fee payment = p_amount payment * float_0_2 env"
    then show ?thesis using old by (auto simp: settled_def)
  qed
  then show ?thesis
    using db_step_distinct_orders [OF d st] db_step_distinct_payments [OF dp st]
    by (simp add: db_invariant_def)
qed

lemma reachable_db_invariant: "reachable_db env db \<Longrightarrow> db_invariant env db"
proof (induction rule: reachable_db.induct)
  case reach_empty
  show ?case by (simp add: db_invariant_def empty_db_def)
next
  case (reach_step db db')
  then show ?case by (blast intro: db_step_invariant)
qed

lemma db_steps_reachable:
  "(db_step env)\<^sup>*\<^sup>* db db' \<Longrightarrow> reachable_db env db \<Longrightarrow> reachable_db env db'"
  by (induction rule: rtranclp_induct) (auto intro: reach_step)

lemma db_steps_total:
  assumes "(db_step env)\<^sup>*\<^sup>* db db'" "reachable_db env db" "old \<in> set (orders db)"
  shows "\<exists>new \<in> set (orders db'). o_id new = o_id old \<and> o_total_amount new = o_total_amount old"
  using assms
proof (induction rule: rtranclp_induct)
  case base
  then show ?case by blast
next
  case (step y z)
  then obtain mid where m: "mid \<in> set (orders y)" "o_id mid = o_id old"
    "o_total_amount mid = o_total_amount old" by blast
  have "reachable_db env y" using step.hyps(1) step.prems(1) by (rule db_steps_reachable)
  then have "distinct (map o_id (orders y))"
    using reachable_db_invariant by (auto simp: db_invariant_def)
  from db_step_order [OF this step.hyps(2) m(1)] m show ?case
    by (auto simp: order_evolves_def)
qed

section \<open>The scenario is what the routes produce\<close>

lemmas scenario_defs = env0_def user_R_def user_C_def user_A_def user_B_def burger_def
  two_burgers_def order_placed_def payment_1_def order_accepted_def order_assigned_def
  order_assigned_B_def order_picked_B_def db_users_def db_menu_def db_placed_def db_repriced_def
  db_accepted_def db_assigned_def db_assigned_B_def db_picked_B_def empty_db_def

lemmas route_defs = register_user_def add_user_def user_ids_def create_menu_item_def
  add_menu_item_def update_menu_item_def store_menu_item_def check_role_def
  get_current_active_user_def create_order_def calculate_order_total_def add_order_def
  process_payment_def add_payment_def broadcast_to_restaurant_def update_order_status_def
  authorization_def truthy_def notify_update_def send_order_update_def store_order_def
  create_payment_def Let_def

lemma registered_users: "reachable_db env0 db_users"
proof -
  let ?d1 = "empty_db\<lparr>users := [user_R]\<rparr> :: real db"
  let ?d2 = "empty_db\<lparr>users := [user_R, user_C]\<rparr> :: real db"
  let ?d3 = "empty_db\<lparr>users := [user_R, user_C, user_A]\<rparr> :: real db"
  have "register_user (empty_db :: real db)
          \<lparr>uc_username = ''r'', uc_email = ''r@x'', uc_role = RESTAURANT, uc_password = ''pw''\<rparr>
          ''R'' ''h'' = (Inr user_R, ?d1)"
    by (simp add: route_defs scenario_defs)
  then have 1: "reachable_db env0 ?d1"
    by (blast intro: reach_empty reach_step step_register)
  have "register_user ?d1
          \<lparr>uc_username = ''c'', uc_email = ''c@x'', uc_role = CUSTOMER, uc_password = ''pw''\<rparr>
          ''C'' ''h'' = (Inr user_C, ?d2)"
    by (simp add: route_defs scenario_defs)
  with 1 have 2: "reachable_db env0 ?d2"
    by (blast intro: reach_step step_register)
  have "register_user ?d2
          \<lparr>uc_username = ''a'', uc_email = ''a@x'', uc_role = DELIVERY_AGENT, uc_password = ''pw''\<rparr>
          ''A'' ''h'' = (Inr user_A, ?d3)"
    by (simp add: route_defs scenario_defs)
  with 2 have 3: "reachable_db env0 ?d3"
    by (blast intro: reach_step step_register)
  have "register_user ?d3
          \<lparr>uc_username = ''b'', uc_email = ''b@x'', uc_role = DELIVERY_AGENT, uc_password = ''pw''\<rparr>
          ''B'' ''h'' = (Inr user_B, db_users)"
    by (simp add: route_defs scenario_defs)
  with 3 show ?thesis
    by (blast intro: reach_step step_register)
qed

lemma burger_created:
  "create_menu_item db_users
     \<lparr>mb_name = ''Burger'', mb_description = ''b'', mb_price = 10, mb_is_available = True\<rparr>
     user_R ''m1'' = (Inr burger, db_menu)"
  by (simp add: route_defs scenario_defs)

lemma two_burgers_ordered:
  "create_order env0 [] db_menu two_burgers user_C ''o1'' ''p1'' 1 = (Inr order_placed, db_placed, [])"
  by (simp add: route_defs scenario_defs)

lemma burger_repriced:
  "update_menu_item db_placed ''m1''
     \<lparr>mb_name = ''Burger'', mb_description = ''b'', mb_price = 99, mb_is_available = True\<rparr>
     user_R = (Inr (burger\<lparr>m_price := 99\<rparr>), db_repriced)"
  by (simp add: route_defs scenario_defs)

lemma order_accepted_by_R:
  "update_order_status [] db_placed ''o1'' \<lparr>ou_status = ACCEPTED, ou_delivery_agent_id = None\<rparr>
     user_R 2 = (Inr order_accepted, db_accepted, [])"
  by (simp add: route_defs scenario_defs)

lemma order_assigned_to_B:
  "update_order_status [] db_accepted ''o1''
     \<lparr>ou_status = ASSIGNED, ou_delivery_agent_id = Some ''B''\<rparr> user_R 3
   = (Inr order_assigned_B, db_assigned_B, [])"
  by (simp add: route_defs scenario_defs)

lemma reachable_db_menu: "reachable_db env0 db_menu"
  using registered_users burger_created by (blast intro: reach_step step_create_menu_item)

lemma reachable_db_placed: "reachable_db env0 db_placed"
  using reachable_db_menu two_burgers_ordered by (blast intro: reach_step step_create_order)

lemma reachable_db_accepted: "reachable_db env0 db_accepted"
  using reachable_db_placed order_accepted_by_R
  by (blast intro: reach_step step_update_order_status)

lemma reachable_db_assigned_B: "reachable_db env0 db_assigned_B"
  using reachable_db_accepted order_assigned_to_B
  by (blast intro: reach_step step_update_order_status)

section \<open>Reading the registry after a registration\<close>

lemma append_connection_lookup:
  "map_of (append_connection key w scs) =
     (map_of scs)(key \<mapsto> (case map_of scs key of None \<Rightarrow> [] | Some conns \<Rightarrow> conns) @ [w])"
  by (auto simp: append_connection_def Let_def update_conv' split: option.splits)

lemma register_connection_lookup:
  "map_of (register_connection w u oid ac) =
     (map_of ac)(u \<mapsto> append_connection (scope_key oid) w
                        (case map_of ac u of None \<Rightarrow> [] | Some scs \<Rightarrow> scs))"
  by (auto simp: register_connection_def scope_key_def Let_def update_conv' split: option.splits)

lemma register_connection_scope_conns:
  "scope_conns (register_connection w u oid ac) u' k =
     (if u' = u \<and> k = scope_key oid then scope_conns ac u k @ [w] else scope_conns ac u' k)"
  by (auto simp: scope_conns_def register_connection_lookup append_connection_lookup split: option.splits)

lemma scope_conns_Nil: "scope_conns [] u k = []"
  by (simp add: scope_conns_def)

lemma send_all_append: "send_all (xs @ ys) m = send_all xs m @ send_all ys m"
  by (simp add: send_all_def)

lemma all_is_not_an_order_scope:
  "send_order_update (register_connection 7 ''C'' (Some ''all'') []) ''C'' ''all'' (0::nat) = [(7, 0), (7, 0)]"
  by (simp add: send_order_update_scopes register_connection_scope_conns scope_key_def scope_conns_Nil send_all_def)

section \<open>What \<open>disconnect\<close> changes, and the one-registration invariant\<close>

lemma disconnect_lookup:
  assumes d: "disconnect w u oid ac = Inr ac'" and s: "map_of ac u = Some scs"
  shows "\<exists>scs'. (if truthy oid \<and> map_of scs (the oid) \<noteq> None
                 then remove_connection (the oid) w scs
                 else if map_of scs ''all'' \<noteq> None
                 then remove_connection ''all'' w scs
                 else Inr scs) = Inr scs'
            \<and> map_of ac' = (map_of ac)(u := if scs' = [] then None else Some scs')"
proof -
  define sel where "sel = (if truthy oid \<and> map_of scs (the oid) \<noteq> None
                 then remove_connection (the oid) w scs
                 else if map_of scs ''all'' \<noteq> None
                 then remove_connection ''all'' w scs
                 else Inr scs)"
  from d s have e: "(case sel of Inl e \<Rightarrow> Inl e
      | Inr scs' \<Rightarrow> if scs' = [] then Inr (AList.delete u ac)
                    else Inr (AList.update u scs' ac)) = Inr ac'"
    by (simp add: disconnect_def sel_def)
  then obtain scs' where a: "sel = Inr scs'"
    by (cases sel) simp_all
  with e have "ac' = (if scs' = [] then AList.delete u ac else AList.update u scs' ac)"
    by (simp split: if_splits)
  then have "map_of ac' = (map_of ac)(u := if scs' = [] then None else Some scs')"
    by (simp add: update_conv' delete_conv')
  with a show ?thesis unfolding sel_def by blast
qed

lemma truthy_None: "truthy None = False"
  by (simp add: truthy_def)

lemma disconnect_unmatched:
  assumes d: "disconnect w u oid ac = Inr ac'" and n: "matching_scope ac u oid = None"
  shows "scope_conns ac' u' k' = scope_conns ac u' k' \<and> has_scope ac' u' k' = has_scope ac u' k'"
proof (cases "map_of ac u")
  case None
  with d show ?thesis by (simp add: disconnect_def)
next
  case (Some scs)
  from n Some have sel: "\<not> (truthy oid \<and> map_of scs (the oid) \<noteq> None)" "map_of scs ''all'' = None"
    by (auto simp: matching_scope_def truthy_None split: if_splits)
  from disconnect_lookup [OF d Some] sel
  have m: "map_of ac' = (map_of ac)(u := if scs = [] then None else Some scs)"
    by auto
  show ?thesis
  proof (cases "u' = u")
    case True
    with m Some show ?thesis
      by (cases "scs = []") (simp_all add: scope_conns_def has_scope_def)
  next
    case False
    with m show ?thesis by (simp add: scope_conns_def has_scope_def)
  qed
qed

lemma disconnect_matched:
  assumes d: "disconnect w u oid ac = Inr ac'" and n: "matching_scope ac u oid = Some k"
  shows "w \<in> set (scope_conns ac u k)
       \<and> scope_conns ac' u' k'
           = (if u' = u \<and> k' = k then remove1 w (scope_conns ac u k) else scope_conns ac u' k')
       \<and> has_scope ac' u' k'
           = (if u' = u \<and> k' = k then remove1 w (scope_conns ac u k) \<noteq> [] else has_scope ac u' k')"
proof -
  from n obtain scs where s: "map_of ac u = Some scs"
    by (cases "map_of ac u") (auto simp: matching_scope_def)
  from n s have sel: "(if truthy oid \<and> map_of scs (the oid) \<noteq> None
                 then remove_connection (the oid) w scs
                 else if map_of scs ''all'' \<noteq> None
                 then remove_connection ''all'' w scs
                 else Inr scs) = remove_connection k w scs"
    and kk: "map_of scs k \<noteq> None"
    by (auto simp: matching_scope_def truthy_def split: if_splits option.splits)
  from kk obtain conns where c: "map_of scs k = Some conns" by auto
  from disconnect_lookup [OF d s] sel obtain scs' where
    r: "remove_connection k w scs = Inr scs'"
    and m: "map_of ac' = (map_of ac)(u := if scs' = [] then None else Some scs')"
    by auto
  from r c have win: "w \<in> set conns"
    by (auto simp: remove_connection_def split: if_splits)
  note look = remove_connection_lookup [OF r c]
  have sc: "scope_conns ac u k = conns" using s c by (simp add: scope_conns_def)
  have nil: "scs' = [] \<Longrightarrow> remove1 w conns = [] \<and> (\<forall>k'. k' \<noteq> k \<longrightarrow> map_of scs k' = None)"
  proof -
    assume e: "scs' = []"
    with r c have "remove1 w conns = []" by (simp add: remove_connection_Nil)
    moreover have "\<forall>k'. k' \<noteq> k \<longrightarrow> map_of scs k' = None"
    proof (intro allI impI)
      fix k' assume "k' \<noteq> k"
      then have "map_of scs' k' = map_of scs k'" using look by simp
      with e show "map_of scs k' = None" by simp
    qed
    ultimately show ?thesis by blast
  qed
  show ?thesis
  proof (cases "u' = u")
    case False
    with m win sc show ?thesis by (simp add: scope_conns_def has_scope_def)
  next
    case True
    show ?thesis
    proof (cases "scs' = []")
      case e: True
      from nil [OF e] m e s True win sc show ?thesis
        by (auto simp: scope_conns_def has_scope_def)
    next
      case ne: False
      with m s True win sc look show ?thesis
        by (auto simp: scope_conns_def has_scope_def)
    qed
  qed
qed

lemma registered_matches:
  assumes "w \<in> set (scope_conns ac u (scope_key oid))"
  shows "matching_scope ac u oid = Some (scope_key oid)"
proof -
  from assms obtain scs where s: "map_of ac u = Some scs"
    by (cases "map_of ac u") (auto simp: scope_conns_def)
  with assms have k: "map_of scs (scope_key oid) \<noteq> None"
    by (cases "map_of scs (scope_key oid)") (auto simp: scope_conns_def)
  show ?thesis
    using s k by (auto simp: matching_scope_def scope_key_def truthy_def split: option.splits if_splits)
qed

lemma registered_disconnect_returns:
  assumes "w \<in> set (scope_conns ac u (scope_key oid))"
  shows "\<exists>ac'. disconnect w u oid ac = Inr ac'"
proof -
  from assms obtain scs where s: "map_of ac u = Some scs"
    by (cases "map_of ac u") (auto simp: scope_conns_def)
  with assms obtain conns where k: "map_of scs (scope_key oid) = Some conns" and w: "w \<in> set conns"
    by (cases "map_of scs (scope_key oid)") (auto simp: scope_conns_def)
  have "\<exists>scs'. remove_connection (scope_key oid) w scs = Inr scs'"
    using k w by (simp add: remove_connection_def)
  then obtain scs' where r: "remove_connection (scope_key oid) w scs = Inr scs'" ..
  have "(if truthy oid \<and> map_of scs (the oid) \<noteq> None
                 then remove_connection (the oid) w scs
                 else if map_of scs ''all'' \<noteq> None
                 then remove_connection ''all'' w scs
                 else Inr scs) = remove_connection (scope_key oid) w scs"
    using k by (auto simp: scope_key_def truthy_def split: option.splits if_splits)
  with r s show ?thesis by (simp add: disconnect_def)
qed

lemma one_registration_Nil: "one_registration {} []"
  by (simp add: one_registration_def scope_conns_Nil)

lemma one_registration_register:
  assumes inv: "one_registration accepted ac" and new: "w \<notin> accepted"
  shows "one_registration (insert w accepted) (register_connection w u oid ac)"
proof -
  have sub: "\<And>u k. set (scope_conns ac u k) \<subseteq> accepted"
    and dis: "\<And>u k. distinct (scope_conns ac u k)"
    and dj: "\<And>u k u' k'. (u', k') \<noteq> (u, k)
        \<Longrightarrow> set (scope_conns ac u k) \<inter> set (scope_conns ac u' k') = {}"
    using inv by (simp_all add: one_registration_def)
  have nw: "\<And>u k. w \<notin> set (scope_conns ac u k)"
    using sub new by blast
  show ?thesis
    unfolding one_registration_def register_connection_scope_conns
  proof (intro allI conjI impI)
    fix x k
    show "distinct (if x = u \<and> k = scope_key oid then scope_conns ac u k @ [w]
                    else scope_conns ac x k)"
      using dis nw by simp
    show "set (if x = u \<and> k = scope_key oid then scope_conns ac u k @ [w]
               else scope_conns ac x k) \<subseteq> insert w accepted"
      using sub by auto
    fix x' k'
    assume "(x', k') \<noteq> (x, k)"
    then show "set (if x = u \<and> k = scope_key oid then scope_conns ac u k @ [w]
                    else scope_conns ac x k)
             \<inter> set (if x' = u \<and> k' = scope_key oid then scope_conns ac u k' @ [w]
                      else scope_conns ac x' k') = {}"
      using dj [of x' k' x k] nw by auto
  qed
qed

lemma one_registration_shrink:
  assumes inv: "one_registration accepted ac"
    and sub: "\<And>u k. set (scope_conns ac' u k) \<subseteq> set (scope_conns ac u k)"
    and dis: "\<And>u k. distinct (scope_conns ac' u k)"
  shows "one_registration accepted ac'"
  unfolding one_registration_def
proof (intro allI conjI impI)
  fix u k
  show "distinct (scope_conns ac' u k)" by (rule dis)
  show "set (scope_conns ac' u k) \<subseteq> accepted"
    using sub [of u k] inv by (auto simp: one_registration_def)
  fix u' k'
  assume "(u', k') \<noteq> (u, k)"
  then have "set (scope_conns ac u k) \<inter> set (scope_conns ac u' k') = {}"
    using inv by (simp add: one_registration_def)
  then show "set (scope_conns ac' u k) \<inter> set (scope_conns ac' u' k') = {}"
    using sub [of u k] sub [of u' k'] by blast
qed

lemma one_registration_disconnect:
  assumes inv: "one_registration accepted ac" and d: "disconnect w u oid ac = Inr ac'"
  shows "one_registration accepted ac'"
proof (cases "matching_scope ac u oid")
  case None
  have "\<And>u' k'. scope_conns ac' u' k' = scope_conns ac u' k'"
    using disconnect_unmatched [OF d None] by simp
  with inv show ?thesis by (simp add: one_registration_def)
next
  case (Some k)
  have eq: "\<And>u' k'. scope_conns ac' u' k'
           = (if u' = u \<and> k' = k then remove1 w (scope_conns ac u k) else scope_conns ac u' k')"
    using disconnect_matched [OF d Some] by simp
  have dis: "\<And>u k. distinct (scope_conns ac u k)"
    using inv by (simp add: one_registration_def)
  show ?thesis
  proof (rule one_registration_shrink [OF inv])
    fix u' k'
    show "set (scope_conns ac' u' k') \<subseteq> set (scope_conns ac u' k')"
      unfolding eq using set_remove1_subset [of w "scope_conns ac u k"] by auto
    show "distinct (scope_conns ac' u' k')"
      unfolding eq using dis by simp
  qed
qed

lemma reachable_manager_invariant:
  "reachable_manager state \<Longrightarrow> no_empty_entries (snd state) \<and> one_registration (fst state) (snd state)"
proof (induction rule: reachable_manager.induct)
  case init
  show ?case by (simp add: no_empty_entries_def one_registration_Nil)
next
  case (connected state websocket user_id order_id state')
  from connected.hyps(2) have new: "websocket \<notin> fst state"
    and st: "state' = (insert websocket (fst state),
                       register_connection websocket user_id order_id (snd state))"
    by (auto simp: connect_def accept_def split: if_splits)
  from connected.IH new st show ?case
    by (simp add: register_connection_no_empty one_registration_register)
next
  case (disconnected accepted ac websocket user_id order_id ac')
  then show ?case
    using disconnect_no_empty [of ac websocket user_id order_id ac']
      one_registration_disconnect [of accepted ac websocket user_id order_id ac']
    by simp
qed

lemma count_list_distinct: "distinct xs \<Longrightarrow> x \<in> set xs \<Longrightarrow> count_list xs x = 1"
  by (induction xs) (auto simp: count_list_0_iff)

lemma nonempty_has_key: "scs \<noteq> [] \<Longrightarrow> \<exists>k. map_of scs k \<noteq> None"
  by (cases scs) auto

lemma four_sockets_reachable: "reachable_manager ({4, 3, 2, 1}, four_sockets)"
proof -
  have 1: "connect 1 ''C'' (Some ''o1'') ({}, []) = Inr ({1}, [(''C'', [(''o1'', [1])])])"
    by (simp add: connect_def accept_def register_connection_def append_connection_def Let_def)
  have 2: "connect 2 ''C'' (Some ''o1'') ({1}, [(''C'', [(''o1'', [1])])])
      = Inr ({2, 1}, [(''C'', [(''o1'', [1, 2])])])"
    by (simp add: connect_def accept_def register_connection_def append_connection_def Let_def)
  have 3: "connect 3 ''C'' None ({2, 1}, [(''C'', [(''o1'', [1, 2])])])
      = Inr ({3, 2, 1}, [(''C'', [(''o1'', [1, 2]), (''all'', [3])])])"
    by (simp add: connect_def accept_def register_connection_def append_connection_def Let_def)
  have 4: "connect 4 ''R'' None ({3, 2, 1}, [(''C'', [(''o1'', [1, 2]), (''all'', [3])])])
      = Inr ({4, 3, 2, 1}, four_sockets)"
    by (simp add: connect_def accept_def register_connection_def append_connection_def Let_def
        four_sockets_def)
  from reachable_manager.init 1 have "reachable_manager ({1}, [(''C'', [(''o1'', [1])])])"
    by (rule reachable_manager.connected)
  from this 2 have "reachable_manager ({2, 1}, [(''C'', [(''o1'', [1, 2])])])"
    by (rule reachable_manager.connected)
  from this 3 have "reachable_manager ({3, 2, 1}, [(''C'', [(''o1'', [1, 2]), (''all'', [3])])])"
    by (rule reachable_manager.connected)
  from this 4 show ?thesis
    by (rule reachable_manager.connected)
qed

lemma agent_A_connected_reachable:
  "connect 7 ''A'' None ({}, []) = Inr ({7}, agent_A_connected)
   \<and> reachable_manager ({7}, agent_A_connected)"
proof -
  have c: "connect 7 ''A'' None ({}, []) = Inr ({7}, agent_A_connected)"
    by (simp add: connect_def accept_def agent_A_connected_def)
  from reachable_manager.init c have "reachable_manager ({7}, agent_A_connected)"
    by (rule reachable_manager.connected)
  with c show ?thesis by (rule conjI)
qed

lemma second_accept_raises:
  "connect 1 ''C'' None ({4, 3, 2, 1}, four_sockets) = Inl RuntimeError"
  by (simp add: connect_def accept_def)

lemma four_sockets_scopes:
  "scope_conns four_sockets ''C'' ''o1'' = [1, 2]"
  "scope_conns four_sockets ''C'' ''all'' = [3]"
  "scope_conns four_sockets ''C'' ''o2'' = []"
  "scope_conns four_sockets ''R'' ''all'' = [4]"
  by (simp_all add: scope_conns_def four_sockets_def)

section \<open>Claims about the connection manager\<close>

text \<open>
  C7. In every state the manager can be in, a connection registered under
  \<open>(U, O)\<close>, for an order id \<open>O\<close> other than the word \<open>all\<close>, is sent the event of
  \<open>send_order_update(U, O, E)\<close> exactly once; it is not registered under
  \<open>(U, "all")\<close> as well, since a socket is accepted and registered once, and
  \<open>send_order_update(U, O2, E)\<close> for any other \<open>O2\<close> sends it nothing. The order scope
  and the scope \<open>all\<close> both receive every event addressed to \<open>(U, O)\<close>: in any
  registry a connection is sent the event once for each registration under either.
\<close>

theorem notify_user_delivers_once:
  assumes r: "reachable_manager (accepted, ac)"
    and m: "c \<in> set (scope_conns ac user_id order_id)"
    and o: "order_id \<noteq> ''all''"
  shows "count_list (send_order_update ac user_id order_id event) (c, event) = 1
       \<and> c \<notin> set (scope_conns ac user_id ''all'')
       \<and> (other_id \<noteq> order_id
            \<longrightarrow> (c, event) \<notin> set (send_order_update ac user_id other_id event))
       \<and> send_order_update ac user_id order_id event
           = send_all (scope_conns ac user_id order_id) event
             @ send_all (scope_conns ac user_id ''all'') event
       \<and> (\<forall>ac0 k. count_list (send_order_update ac0 user_id k event) (c, event)
             = count_list (scope_conns ac0 user_id k) c
               + count_list (scope_conns ac0 user_id ''all'') c)"
proof -
  from reachable_manager_invariant [OF r] have inv: "one_registration accepted ac" by simp
  then have dis: "distinct (scope_conns ac user_id order_id)"
    and dj: "\<And>k. k \<noteq> order_id
        \<Longrightarrow> set (scope_conns ac user_id order_id) \<inter> set (scope_conns ac user_id k) = {}"
    by (simp_all add: one_registration_def)
  have one: "count_list (scope_conns ac user_id order_id) c = 1"
    using dis m by (rule count_list_distinct)
  have na: "c \<notin> set (scope_conns ac user_id ''all'')"
    using dj [of "''all''"] o m by blast
  have cnt: "\<And>ac0 k. count_list (send_order_update ac0 user_id k event) (c, event)
             = count_list (scope_conns ac0 user_id k) c
               + count_list (scope_conns ac0 user_id ''all'') c"
    by (simp add: send_order_update_scopes send_all_append count_send_all)
  have a: "count_list (send_order_update ac user_id order_id event) (c, event) = 1"
    using one na by (simp add: cnt count_list_0_iff)
  have b: "other_id \<noteq> order_id
            \<longrightarrow> (c, event) \<notin> set (send_order_update ac user_id other_id event)"
  proof
    assume "other_id \<noteq> order_id"
    then have "c \<notin> set (scope_conns ac user_id other_id)"
      using dj [of other_id] m by blast
    with na show "(c, event) \<notin> set (send_order_update ac user_id other_id event)"
      by (simp add: send_order_update_scopes set_send_all send_all_append)
  qed
  have e: "send_order_update ac user_id order_id event
           = send_all (scope_conns ac user_id order_id) event
             @ send_all (scope_conns ac user_id ''all'') event"
    by (simp add: send_order_update_scopes send_all_append)
  from a na b e cnt show ?thesis by (intro conjI allI) 
qed

theorem notify_user_delivers_once_witness:
  "reachable_manager ({4, 3, 2, 1}, four_sockets)
   \<and> 1 \<in> set (scope_conns four_sockets ''C'' ''o1'') \<and> ''o1'' \<noteq> ''all''
   \<and> count_list (send_order_update four_sockets ''C'' ''o1''
         (Order_update ''o1'' ACCEPTED 2 :: real message)) (1, Order_update ''o1'' ACCEPTED 2) = 1
   \<and> send_order_update four_sockets ''C'' ''o1'' (Order_update ''o1'' ACCEPTED 2 :: real message)
       = [(1, Order_update ''o1'' ACCEPTED 2), (2, Order_update ''o1'' ACCEPTED 2),
          (3, Order_update ''o1'' ACCEPTED 2)]
   \<and> (1, Order_update ''o1'' ACCEPTED 2 :: real message)
       \<notin> set (send_order_update four_sockets ''C'' ''o2'' (Order_update ''o1'' ACCEPTED 2))"
proof -
  have m: "1 \<in> set (scope_conns four_sockets ''C'' ''o1'')"
    by (simp add: four_sockets_scopes)
  have o: "''o1'' \<noteq> ''all''" "''o2'' \<noteq> ''o1''" by simp_all
  note t = notify_user_delivers_once [OF four_sockets_reachable m o(1),
      where event = "Order_update ''o1'' ACCEPTED 2 :: real message" and other_id = "''o2''"]
  note a = t [THEN conjunct1]
  have b: "(1, Order_update ''o1'' ACCEPTED 2 :: real message)
       \<notin> set (send_order_update four_sockets ''C'' ''o2'' (Order_update ''o1'' ACCEPTED 2))"
    using t [THEN conjunct2, THEN conjunct2, THEN conjunct1] o(2) by (rule mp)
  have c: "send_order_update four_sockets ''C'' ''o1'' (Order_update ''o1'' ACCEPTED 2 :: real message)
       = [(1, Order_update ''o1'' ACCEPTED 2), (2, Order_update ''o1'' ACCEPTED 2),
          (3, Order_update ''o1'' ACCEPTED 2)]"
    using t [THEN conjunct2, THEN conjunct2, THEN conjunct2, THEN conjunct1]
    by (simp add: four_sockets_scopes send_all_def)
  show ?thesis
    using four_sockets_reachable m o(1) a c b by (intro conjI)
qed

text \<open>
  C8. In every state the manager can be in, the \<open>disconnect\<close> of a connection with
  the user and order id it was registered with returns, and removes the connection:
  its scope list loses it and it is in no scope list afterwards; the scope entry is gone
  exactly when nothing remains in it, the user entry is gone exactly when the user has
  no scope left, and every other scope of every user is as before. After this, and
  after any other \<open>disconnect\<close> that returns, the registry has no empty scope list
  and no user without scopes.
\<close>

theorem disconnect_prunes:
  assumes r: "reachable_manager (accepted, ac)"
    and m: "websocket \<in> set (scope_conns ac user_id (scope_key order_id))"
  shows "(\<exists>ac'. disconnect websocket user_id order_id ac = Inr ac'
           \<and> scope_conns ac' user_id (scope_key order_id)
               = remove1 websocket (scope_conns ac user_id (scope_key order_id))
           \<and> (\<forall>u k. websocket \<notin> set (scope_conns ac' u k))
           \<and> (has_scope ac' user_id (scope_key order_id)
                \<longleftrightarrow> remove1 websocket (scope_conns ac user_id (scope_key order_id)) \<noteq> [])
           \<and> (map_of ac' user_id = None \<longleftrightarrow> (\<forall>k. \<not> has_scope ac' user_id k))
           \<and> (\<forall>u k. (u, k) \<noteq> (user_id, scope_key order_id)
                 \<longrightarrow> scope_conns ac' u k = scope_conns ac u k
                     \<and> has_scope ac' u k = has_scope ac u k)
           \<and> no_empty_entries ac'
           \<and> reachable_manager (accepted, ac'))
       \<and> (\<forall>w u oid ac''. disconnect w u oid ac = Inr ac'' \<longrightarrow> no_empty_entries ac'')"
proof -
  let ?k = "scope_key order_id"
  from reachable_manager_invariant [OF r] have ne: "no_empty_entries ac"
    and inv: "one_registration accepted ac" by simp_all
  have any: "\<forall>w u oid ac''. disconnect w u oid ac = Inr ac'' \<longrightarrow> no_empty_entries ac''"
    using ne disconnect_no_empty by blast
  from registered_disconnect_returns [OF m] obtain ac' where
    d: "disconnect websocket user_id order_id ac = Inr ac'" ..
  note ms = registered_matches [OF m]
  have eq: "\<And>u k. scope_conns ac' u k
        = (if u = user_id \<and> k = ?k then remove1 websocket (scope_conns ac user_id ?k)
           else scope_conns ac u k)"
    and hs: "\<And>u k. has_scope ac' u k
        = (if u = user_id \<and> k = ?k then remove1 websocket (scope_conns ac user_id ?k) \<noteq> []
           else has_scope ac u k)"
    using disconnect_matched [OF d ms] by simp_all
  have r': "reachable_manager (accepted, ac')"
    using r d by (rule reachable_manager.disconnected)
  have ne': "no_empty_entries ac'"
    using ne d by (rule disconnect_no_empty)
  have dis: "distinct (scope_conns ac user_id ?k)"
    and dj: "\<And>u k. (u, k) \<noteq> (user_id, ?k)
        \<Longrightarrow> set (scope_conns ac user_id ?k) \<inter> set (scope_conns ac u k) = {}"
    using inv by (simp_all add: one_registration_def)
  have gone: "\<forall>u k. websocket \<notin> set (scope_conns ac' u k)"
  proof (intro allI)
    fix u k
    show "websocket \<notin> set (scope_conns ac' u k)"
    proof (cases "u = user_id \<and> k = ?k")
      case True
      then show ?thesis using dis by (simp add: eq)
    next
      case False
      then have "(u, k) \<noteq> (user_id, ?k)" by simp
      from dj [OF this] m have "websocket \<notin> set (scope_conns ac u k)" by blast
      with False show ?thesis by (auto simp: eq)
    qed
  qed
  have user: "map_of ac' user_id = None \<longleftrightarrow> (\<forall>k. \<not> has_scope ac' user_id k)"
  proof (cases "map_of ac' user_id")
    case None
    then show ?thesis by (simp add: has_scope_def)
  next
    case (Some scs')
    with ne' have "scs' \<noteq> []" by (simp add: no_empty_entries_lookup)
    then obtain k where "map_of scs' k \<noteq> None" using nonempty_has_key by blast
    with Some have "has_scope ac' user_id k" by (simp add: has_scope_def)
    with Some show ?thesis by auto
  qed
  have others: "\<forall>u k. (u, k) \<noteq> (user_id, ?k)
                 \<longrightarrow> scope_conns ac' u k = scope_conns ac u k
                     \<and> has_scope ac' u k = has_scope ac u k"
  proof (intro allI impI)
    fix u k
    assume "(u, k) \<noteq> (user_id, ?k)"
    then have n: "\<not> (u = user_id \<and> k = ?k)" by simp
    show "scope_conns ac' u k = scope_conns ac u k \<and> has_scope ac' u k = has_scope ac u k"
      using eq [of u k] hs [of u k] by (simp only: if_not_P [OF n])
  qed
  have sc: "scope_conns ac' user_id ?k = remove1 websocket (scope_conns ac user_id ?k)"
    by (simp add: eq)
  have hk: "has_scope ac' user_id ?k \<longleftrightarrow> remove1 websocket (scope_conns ac user_id ?k) \<noteq> []"
    by (simp add: hs)
  have "disconnect websocket user_id order_id ac = Inr ac'
           \<and> scope_conns ac' user_id ?k = remove1 websocket (scope_conns ac user_id ?k)
           \<and> (\<forall>u k. websocket \<notin> set (scope_conns ac' u k))
           \<and> (has_scope ac' user_id ?k \<longleftrightarrow> remove1 websocket (scope_conns ac user_id ?k) \<noteq> [])
           \<and> (map_of ac' user_id = None \<longleftrightarrow> (\<forall>k. \<not> has_scope ac' user_id k))
           \<and> (\<forall>u k. (u, k) \<noteq> (user_id, ?k)
                 \<longrightarrow> scope_conns ac' u k = scope_conns ac u k
                     \<and> has_scope ac' u k = has_scope ac u k)
           \<and> no_empty_entries ac'
           \<and> reachable_manager (accepted, ac')"
    using d sc gone hk user others ne' r' by (intro conjI)
  then have ex: "\<exists>ac'. disconnect websocket user_id order_id ac = Inr ac'
           \<and> scope_conns ac' user_id ?k = remove1 websocket (scope_conns ac user_id ?k)
           \<and> (\<forall>u k. websocket \<notin> set (scope_conns ac' u k))
           \<and> (has_scope ac' user_id ?k \<longleftrightarrow> remove1 websocket (scope_conns ac user_id ?k) \<noteq> [])
           \<and> (map_of ac' user_id = None \<longleftrightarrow> (\<forall>k. \<not> has_scope ac' user_id k))
           \<and> (\<forall>u k. (u, k) \<noteq> (user_id, ?k)
                 \<longrightarrow> scope_conns ac' u k = scope_conns ac u k
                     \<and> has_scope ac' u k = has_scope ac u k)
           \<and> no_empty_entries ac'
           \<and> reachable_manager (accepted, ac')"
    by (rule exI)
  from ex any show ?thesis by (rule conjI)
qed

theorem disconnect_prunes_witness:
  "reachable_manager ({4, 3, 2, 1}, four_sockets)
   \<and> 1 \<in> set (scope_conns four_sockets ''C'' (scope_key (Some ''o1'')))
   \<and> disconnect 1 ''C'' (Some ''o1'') four_sockets
       = Inr [(''C'', [(''o1'', [2]), (''all'', [3])]), (''R'', [(''all'', [4])])]
   \<and> 4 \<in> set (scope_conns four_sockets ''R'' (scope_key None))
   \<and> disconnect 4 ''R'' None four_sockets = Inr [(''C'', [(''o1'', [1, 2]), (''all'', [3])])]
   \<and> (\<exists>ac'. disconnect 1 ''C'' (Some ''o1'') four_sockets = Inr ac'
         \<and> scope_conns ac' ''C'' ''o1'' = [2] \<and> has_scope ac' ''C'' ''o1''
         \<and> scope_conns ac' ''C'' ''all'' = [3] \<and> scope_conns ac' ''R'' ''all'' = [4]
         \<and> no_empty_entries ac')
   \<and> (\<exists>ac'. disconnect 4 ''R'' None four_sockets = Inr ac'
         \<and> scope_conns ac' ''R'' ''all'' = [] \<and> \<not> has_scope ac' ''R'' ''all''
         \<and> map_of ac' ''R'' = None
         \<and> scope_conns ac' ''C'' ''o1'' = [1, 2]
         \<and> no_empty_entries ac')"
proof -
  have k: "scope_key (Some ''o1'') = ''o1''" "scope_key None = ''all''"
    by (simp_all add: scope_key_def)
  have m1: "1 \<in> set (scope_conns four_sockets ''C'' (scope_key (Some ''o1'')))"
    and m4: "4 \<in> set (scope_conns four_sockets ''R'' (scope_key None))"
    by (simp_all add: k four_sockets_scopes)
  have d1: "disconnect 1 ''C'' (Some ''o1'') four_sockets
       = Inr [(''C'', [(''o1'', [2]), (''all'', [3])]), (''R'', [(''all'', [4])])]"
    and d4: "disconnect 4 ''R'' None four_sockets = Inr [(''C'', [(''o1'', [1, 2]), (''all'', [3])])]"
    by (simp_all add: disconnect_def remove_connection_def truthy_def four_sockets_def)
  note t1 = disconnect_prunes [OF four_sockets_reachable m1, THEN conjunct1]
  have e1: "\<exists>ac'. disconnect 1 ''C'' (Some ''o1'') four_sockets = Inr ac'
         \<and> scope_conns ac' ''C'' ''o1'' = [2] \<and> has_scope ac' ''C'' ''o1''
         \<and> scope_conns ac' ''C'' ''all'' = [3] \<and> scope_conns ac' ''R'' ''all'' = [4]
         \<and> no_empty_entries ac'"
  proof -
    from t1 obtain ac1 where
      a: "disconnect 1 ''C'' (Some ''o1'') four_sockets = Inr ac1
           \<and> scope_conns ac1 ''C'' (scope_key (Some ''o1''))
               = remove1 1 (scope_conns four_sockets ''C'' (scope_key (Some ''o1'')))
           \<and> (\<forall>u k. 1 \<notin> set (scope_conns ac1 u k))
           \<and> (has_scope ac1 ''C'' (scope_key (Some ''o1''))
                \<longleftrightarrow> remove1 1 (scope_conns four_sockets ''C'' (scope_key (Some ''o1''))) \<noteq> [])
           \<and> (map_of ac1 ''C'' = None \<longleftrightarrow> (\<forall>k. \<not> has_scope ac1 ''C'' k))
           \<and> (\<forall>u k. (u, k) \<noteq> (''C'', scope_key (Some ''o1''))
                 \<longrightarrow> scope_conns ac1 u k = scope_conns four_sockets u k
                     \<and> has_scope ac1 u k = has_scope four_sockets u k)
           \<and> no_empty_entries ac1
           \<and> reachable_manager ({4, 3, 2, 1}, ac1)" ..
    note o = a [THEN conjunct2, THEN conjunct2, THEN conjunct2, THEN conjunct2, THEN conjunct2,
        THEN conjunct1]
    have "scope_conns ac1 ''C'' ''all'' = [3]"
      using o [THEN spec, THEN spec, of "''C''" "''all''"] by (simp add: k four_sockets_scopes)
    moreover have "scope_conns ac1 ''R'' ''all'' = [4]"
      using o [THEN spec, THEN spec, of "''R''" "''all''"] by (simp add: k four_sockets_scopes)
    moreover have "scope_conns ac1 ''C'' ''o1'' = [2]"
      using a [THEN conjunct2, THEN conjunct1] by (simp add: k four_sockets_scopes)
    moreover have "has_scope ac1 ''C'' ''o1''"
      using a [THEN conjunct2, THEN conjunct2, THEN conjunct2, THEN conjunct1]
      by (simp add: k four_sockets_scopes)
    moreover note a [THEN conjunct1]
      a [THEN conjunct2, THEN conjunct2, THEN conjunct2, THEN conjunct2, THEN conjunct2,
        THEN conjunct2, THEN conjunct1]
    ultimately show ?thesis by (intro exI [of _ ac1] conjI)
  qed
  note t4 = disconnect_prunes [OF four_sockets_reachable m4, THEN conjunct1]
  have e4: "\<exists>ac'. disconnect 4 ''R'' None four_sockets = Inr ac'
         \<and> scope_conns ac' ''R'' ''all'' = [] \<and> \<not> has_scope ac' ''R'' ''all''
         \<and> map_of ac' ''R'' = None
         \<and> scope_conns ac' ''C'' ''o1'' = [1, 2]
         \<and> no_empty_entries ac'"
  proof -
    from t4 obtain ac4 where
      a: "disconnect 4 ''R'' None four_sockets = Inr ac4
           \<and> scope_conns ac4 ''R'' (scope_key None)
               = remove1 4 (scope_conns four_sockets ''R'' (scope_key None))
           \<and> (\<forall>u k. 4 \<notin> set (scope_conns ac4 u k))
           \<and> (has_scope ac4 ''R'' (scope_key None)
                \<longleftrightarrow> remove1 4 (scope_conns four_sockets ''R'' (scope_key None)) \<noteq> [])
           \<and> (map_of ac4 ''R'' = None \<longleftrightarrow> (\<forall>k. \<not> has_scope ac4 ''R'' k))
           \<and> (\<forall>u k. (u, k) \<noteq> (''R'', scope_key None)
                 \<longrightarrow> scope_conns ac4 u k = scope_conns four_sockets u k
                     \<and> has_scope ac4 u k = has_scope four_sockets u k)
           \<and> no_empty_entries ac4
           \<and> reachable_manager ({4, 3, 2, 1}, ac4)" ..
    note o = a [THEN conjunct2, THEN conjunct2, THEN conjunct2, THEN conjunct2, THEN conjunct2,
        THEN conjunct1]
    have "scope_conns ac4 ''C'' ''o1'' = [1, 2]"
      using o [THEN spec, THEN spec, of "''C''" "''o1''"] by (simp add: k four_sockets_scopes)
    moreover have "scope_conns ac4 ''R'' ''all'' = []"
      using a [THEN conjunct2, THEN conjunct1] by (simp add: k four_sockets_scopes)
    moreover have "\<not> has_scope ac4 ''R'' ''all''"
      using a [THEN conjunct2, THEN conjunct2, THEN conjunct2, THEN conjunct1]
      by (simp add: k four_sockets_scopes)
    moreover have "map_of ac4 ''R'' = None"
      using a [THEN conjunct1] d4 by auto
    moreover note a [THEN conjunct1]
      a [THEN conjunct2, THEN conjunct2, THEN conjunct2, THEN conjunct2, THEN conjunct2,
        THEN conjunct2, THEN conjunct1]
    ultimately show ?thesis by (intro exI [of _ ac4] conjI)
  qed
  show ?thesis
    using four_sockets_reachable m1 d1 m4 d4 e1 e4 by (intro conjI)
qed

text \<open>
  C10. When user \<open>U\<close> has no scope entry for order \<open>O\<close> but has the connection in
  the scope \<open>all\<close>, \<open>disconnect(C, U, O)\<close> is not a no-op: it does what
  \<open>disconnect(C, U)\<close> does, removing the connection from \<open>all\<close> and deleting
  that scope when nothing remains in it.
\<close>

theorem disconnect_falls_through_to_all:
  assumes "\<not> has_scope ac user_id order_id"
    and "websocket \<in> set (scope_conns ac user_id ''all'')"
  shows "\<exists>ac'. disconnect websocket user_id (Some order_id) ac = Inr ac'
           \<and> ac' \<noteq> ac
           \<and> scope_conns ac' user_id ''all'' = remove1 websocket (scope_conns ac user_id ''all'')
           \<and> (has_scope ac' user_id ''all'' \<longleftrightarrow> remove1 websocket (scope_conns ac user_id ''all'') \<noteq> [])
           \<and> disconnect websocket user_id (Some order_id) ac = disconnect websocket user_id None ac"
proof -
  from assms(2) obtain scs where s: "map_of ac user_id = Some scs"
    by (cases "map_of ac user_id") (auto simp: scope_conns_def)
  with assms(2) obtain conns where k: "map_of scs ''all'' = Some conns"
    and w: "websocket \<in> set conns"
    by (cases "map_of scs ''all''") (auto simp: scope_conns_def)
  from assms(1) s have n: "map_of scs order_id = None" by (simp add: has_scope_def)
  have "\<exists>scs'. remove_connection ''all'' websocket scs = Inr scs'"
    using k w by (simp add: remove_connection_def)
  then obtain scs' where r: "remove_connection ''all'' websocket scs = Inr scs'" ..
  have sel: "(if truthy (Some order_id) \<and> map_of scs (the (Some order_id)) \<noteq> None
         then remove_connection (the (Some order_id)) websocket scs
         else if map_of scs ''all'' \<noteq> None then remove_connection ''all'' websocket scs else Inr scs)
         = remove_connection ''all'' websocket scs"
    using n k by simp
  define ac' where "ac' = (if scs' = [] then AList.delete user_id ac else AList.update user_id scs' ac)"
  have d: "disconnect websocket user_id (Some order_id) ac = Inr ac'"
    using s n k r by (simp add: disconnect_def ac'_def)
  have d0: "disconnect websocket user_id None ac = Inr ac'"
    using s k r by (simp add: disconnect_def ac'_def truthy_def)
  have sc: "scope_conns ac user_id ''all'' = conns" using s k by (simp add: scope_conns_def)
  have res: "scope_conns ac' user_id ''all'' = remove1 websocket conns
      \<and> (has_scope ac' user_id ''all'' \<longleftrightarrow> remove1 websocket conns \<noteq> [])"
    by (rule disconnect_scope [OF d s r k sel])
  have "length (remove1 websocket conns) < length conns"
    using w by (simp add: length_remove1) (cases conns, auto)
  then have "scope_conns ac' user_id ''all'' \<noteq> scope_conns ac user_id ''all''"
    using res sc by auto
  then have "ac' \<noteq> ac" by auto
  with d d0 res sc show ?thesis by simp
qed

theorem disconnect_falls_through_to_all_witness:
  "\<not> has_scope agent_A_connected ''A'' ''o1''
   \<and> 7 \<in> set (scope_conns agent_A_connected ''A'' ''all'')
   \<and> disconnect 7 ''A'' (Some ''o1'') agent_A_connected = Inr []
   \<and> disconnect 7 ''A'' None agent_A_connected = Inr []"
proof -
  have a: "\<not> has_scope agent_A_connected ''A'' ''o1''"
    and b: "7 \<in> set (scope_conns agent_A_connected ''A'' ''all'')"
    by (simp_all add: agent_A_connected_def has_scope_def register_connection_lookup append_connection_lookup
        scope_key_def register_connection_scope_conns scope_conns_Nil)
  have c: "disconnect 7 ''A'' None agent_A_connected = Inr []"
    by (simp add: agent_A_connected_def register_connection_def append_connection_def disconnect_def
        remove_connection_def truthy_def Let_def)
  from disconnect_falls_through_to_all [OF a b] a b c show ?thesis by auto
qed

section \<open>Claims about status updates\<close>

lemma valid_transitions_chain:
  "s' \<in> set (valid_transitions s) \<longleftrightarrow> (s, s') \<in> set status_chain"
  by (cases s; cases s'; simp add: status_chain_def)

lemma update_order_status_rejects:
  assumes "find (\<lambda>r. o_id r = order_id) (orders db) = Some order"
    and "ou_status order_update \<notin> set (valid_transitions (o_status order))"
  shows "update_order_status manager db order_id order_update current_user now
     = (Inl (if u_disabled current_user then HTTPException 400 Inactive_user
             else if fst (authorization order order_update current_user)
             then HTTPException 400
                    (Invalid_status_transition (o_status order) (ou_status order_update))
             else HTTPException 403 Not_authorized_to_update_this_order_status), db, [])"
proof (cases "u_disabled current_user")
  case True
  then show ?thesis
    by (simp add: update_order_status_def get_current_active_user_def)
next
  case False
  obtain a upd where au: "authorization order order_update current_user = (a, upd)"
    by (cases "authorization order order_update current_user")
  then have "ou_status upd = ou_status order_update" by (rule authorization_status)
  with False au assms show ?thesis
    by (simp add: update_order_status_def get_current_active_user_def)
qed

lemma update_order_status_stores_valid:
  assumes "update_order_status manager db order_id order_update current_user now = (response, db', sent)"
    and "(\<exists>row. response = Inr row) \<or> db' \<noteq> db"
  shows "\<exists>order. find (\<lambda>r. o_id r = order_id) (orders db) = Some order
           \<and> ou_status order_update \<in> set (valid_transitions (o_status order))"
proof (cases "find (\<lambda>r. o_id r = order_id) (orders db)")
  case None
  with assms show ?thesis
    by (auto simp: update_order_status_def split: sum.splits)
next
  case (Some order)
  show ?thesis
  proof (cases "ou_status order_update \<in> set (valid_transitions (o_status order))")
    case True
    with Some show ?thesis by simp
  next
    case False
    from update_order_status_rejects [OF Some False, of manager current_user now] assms
    show ?thesis by auto
  qed
qed

lemma reachable_step_status:
  assumes r: "reachable_db env db1" and st: "db_step env db1 db2" and m: "old \<in> set (orders db1)"
  shows "(\<exists>new \<in> set (orders db2). o_id new = o_id old)
       \<and> (\<forall>new \<in> set (orders db2). o_id new = o_id old
             \<longrightarrow> o_total_amount new = o_total_amount old
                 \<and> (o_status new = o_status old \<or> (o_status old, o_status new) \<in> set status_chain))"
proof -
  from r have d1: "distinct (map o_id (orders db1))"
    using reachable_db_invariant by (auto simp: db_invariant_def)
  have d2: "distinct (map o_id (orders db2))"
    by (rule db_step_distinct_orders [OF d1 st])
  from db_step_order [OF d1 st m] obtain new where
    n: "new \<in> set (orders db2)" "order_evolves old new" by blast
  have "\<And>x. x \<in> set (orders db2) \<Longrightarrow> o_id x = o_id old \<Longrightarrow> x = new"
    using n d2 by (auto simp: order_evolves_def intro: distinct_map_eq [of o_id])
  with n show ?thesis
    by (auto simp: order_evolves_def valid_transitions_chain)
qed

lemma noop_rejected:
  "update_order_status [] db_accepted ''o1'' \<lparr>ou_status = ACCEPTED, ou_delivery_agent_id = None\<rparr>
     user_R 3
   = (Inl (HTTPException 400 (Invalid_status_transition ACCEPTED ACCEPTED)), db_accepted, [])"
  by (simp add: route_defs scenario_defs)

lemma find_store_order:
  "find (\<lambda>r. o_id r = k) (orders db) = Some order \<Longrightarrow> o_id row = k
     \<Longrightarrow> find (\<lambda>r. o_id r = k) (orders (store_order row db)) = Some row"
proof -
  assume k: "o_id row = k"
  have "find (\<lambda>r. o_id r = k) xs = Some order
     \<Longrightarrow> find (\<lambda>r. o_id r = k) (map (\<lambda>r. if o_id r = o_id row then row else r) xs) = Some row"
    for xs
    using k by (induction xs) (auto split: if_splits)
  then show "find (\<lambda>r. o_id r = k) (orders db) = Some order
     \<Longrightarrow> find (\<lambda>r. o_id r = k) (orders (store_order row db)) = Some row"
    by (simp add: store_order_def)
qed

lemma delivery_agent_authorized:
  "u_role current_user = DELIVERY_AGENT \<Longrightarrow>
     fst (authorization order order_update current_user)
       \<longleftrightarrow> ou_status order_update \<in> {PICKED_UP, DELIVERED}
           \<and> (o_delivery_agent_id order = Some (u_id current_user) \<or> o_status order = ASSIGNED)"
  by (auto simp: authorization_def Let_def)

lemma claim_recorded:
  assumes role: "u_role agent = DELIVERY_AGENT" and active: "\<not> u_disabled agent"
    and mem: "agent \<in> set (users db)" and ne: "u_id agent \<noteq> []"
    and f: "find (\<lambda>r. o_id r = order_id) (orders db) = Some unassigned"
    and st: "o_status unassigned = ASSIGNED" and un: "\<not> truthy (o_delivery_agent_id unassigned)"
    and pk: "ou_status claim = PICKED_UP"
  shows "\<exists>row sent. update_order_status manager db order_id claim agent now
              = (Inr row, store_order row db, sent)
           \<and> o_status row = PICKED_UP \<and> o_delivery_agent_id row = Some (u_id agent)
           \<and> find (\<lambda>r. o_id r = order_id) (orders (store_order row db)) = Some row"
proof -
  define row where "row = unassigned\<lparr>o_status := PICKED_UP,
      o_delivery_agent_id := Some (u_id agent), o_updated_at := now\<rparr>"
  have au: "authorization unassigned claim agent = (True, claim\<lparr>ou_delivery_agent_id := Some (u_id agent)\<rparr>)"
    using role st un pk by (simp add: authorization_def Let_def)
  have fk: "u_id agent \<in> set (user_ids db)"
    using mem by (simp add: user_ids_def)
  have nt: "\<exists>sent. notify_update manager row = (sent, None)"
    by (simp add: notify_update_def Let_def row_def)
  then obtain sent where s: "notify_update manager row = (sent, None)" ..
  have "update_order_status manager db order_id claim agent now = (Inr row, store_order row db, sent)"
    using active f au st pk ne fk s
    by (simp add: update_order_status_def get_current_active_user_def truthy_def row_def Let_def)
  moreover have "o_id row = order_id"
    using f by (auto simp: row_def dest: find_Some_mem)
  then have "find (\<lambda>r. o_id r = order_id) (orders (store_order row db)) = Some row"
    using f by (simp add: find_store_order)
  ultimately show ?thesis by (auto simp: row_def)
qed

lemma picked_up_by_A:
  "update_order_status [] db_assigned_B ''o1''
     \<lparr>ou_status = PICKED_UP, ou_delivery_agent_id = None\<rparr> user_A 4
   = (Inr order_picked_B, db_picked_B, [])"
  by (simp add: route_defs scenario_defs)

text \<open>
  C1 (as amended). \<open>valid_transitions\<close> is the chain placed, accepted,
  assigned_to_delivery, picked_up, delivered, and delivered has no successor. A request
  for a transition that the chain does not list, a no-op and a backward one included,
  fails and leaves the database as it was and sends nothing: with the 400
  "Invalid status transition" error naming the from/to pair when the requester passes
  the authorization block, which comes first; with 403 when the requester does not pass
  it; with 400 "Inactive user" when the requester is disabled. An update that returns
  an order, or that changes the database at all, is along the chain. Hence in one step
  of a reachable database the status of every order stays or moves to its successor.
\<close>

theorem status_moves_along_chain:
  "set (valid_transitions s) = {s'. (s, s') \<in> set status_chain}
   \<and> (find (\<lambda>r. o_id r = order_id) (orders db) = Some order
        \<and> ou_status order_update \<notin> set (valid_transitions (o_status order))
      \<longrightarrow> update_order_status manager db order_id order_update current_user now
            = (Inl (if u_disabled current_user then HTTPException 400 Inactive_user
                    else if fst (authorization order order_update current_user)
                    then HTTPException 400
                           (Invalid_status_transition (o_status order) (ou_status order_update))
                    else HTTPException 403 Not_authorized_to_update_this_order_status), db, []))
   \<and> (update_order_status manager' db0 order_id' order_update' current_user' now' = (response, db', sent)
        \<and> ((\<exists>row. response = Inr row) \<or> db' \<noteq> db0)
      \<longrightarrow> (\<exists>order'. find (\<lambda>r. o_id r = order_id') (orders db0) = Some order'
             \<and> ou_status order_update' \<in> set (valid_transitions (o_status order'))))
   \<and> (reachable_db env db1 \<and> db_step env db1 db2 \<and> old \<in> set (orders db1)
      \<longrightarrow> (\<exists>new \<in> set (orders db2). o_id new = o_id old)
          \<and> (\<forall>new \<in> set (orders db2). o_id new = o_id old
                \<longrightarrow> o_status new = o_status old \<or> (o_status old, o_status new) \<in> set status_chain))"
proof (intro conjI impI)
  show "set (valid_transitions s) = {s'. (s, s') \<in> set status_chain}"
    using valid_transitions_chain by blast
next
  assume "find (\<lambda>r. o_id r = order_id) (orders db) = Some order
        \<and> ou_status order_update \<notin> set (valid_transitions (o_status order))"
  then show "update_order_status manager db order_id order_update current_user now
            = (Inl (if u_disabled current_user then HTTPException 400 Inactive_user
                    else if fst (authorization order order_update current_user)
                    then HTTPException 400
                           (Invalid_status_transition (o_status order) (ou_status order_update))
                    else HTTPException 403 Not_authorized_to_update_this_order_status), db, [])"
    using update_order_status_rejects by blast
next
  assume "update_order_status manager' db0 order_id' order_update' current_user' now' = (response, db', sent)
        \<and> ((\<exists>row. response = Inr row) \<or> db' \<noteq> db0)"
  then show "\<exists>order'. find (\<lambda>r. o_id r = order_id') (orders db0) = Some order'
             \<and> ou_status order_update' \<in> set (valid_transitions (o_status order'))"
    using update_order_status_stores_valid by blast
next
  assume a: "reachable_db env db1 \<and> db_step env db1 db2 \<and> old \<in> set (orders db1)"
  then have "(\<exists>new \<in> set (orders db2). o_id new = o_id old)
       \<and> (\<forall>new \<in> set (orders db2). o_id new = o_id old
             \<longrightarrow> o_total_amount new = o_total_amount old
                 \<and> (o_status new = o_status old \<or> (o_status old, o_status new) \<in> set status_chain))"
    using reachable_step_status by blast
  then show "\<exists>new \<in> set (orders db2). o_id new = o_id old"
    and "\<forall>new \<in> set (orders db2). o_id new = o_id old
                \<longrightarrow> o_status new = o_status old \<or> (o_status old, o_status new) \<in> set status_chain"
    by blast+
qed

theorem status_moves_along_chain_witness:
  "find (\<lambda>r. o_id r = ''o1'') (orders db_accepted) = Some order_accepted
   \<and> ACCEPTED \<notin> set (valid_transitions (o_status order_accepted))
   \<and> update_order_status [] db_accepted ''o1''
        \<lparr>ou_status = ACCEPTED, ou_delivery_agent_id = None\<rparr> user_R 3
      = (Inl (HTTPException 400 (Invalid_status_transition ACCEPTED ACCEPTED)), db_accepted, [])
   \<and> update_order_status [] db_placed ''o1''
        \<lparr>ou_status = ACCEPTED, ou_delivery_agent_id = None\<rparr> user_R 2
      = (Inr order_accepted, db_accepted, [])
   \<and> find (\<lambda>r. o_id r = ''o1'') (orders db_placed) = Some order_placed
   \<and> ACCEPTED \<in> set (valid_transitions (o_status order_placed))
   \<and> reachable_db env0 db_placed \<and> db_step env0 db_placed db_accepted
   \<and> order_placed \<in> set (orders db_placed)
   \<and> order_accepted \<in> set (orders db_accepted) \<and> o_id order_accepted = o_id order_placed
   \<and> (o_status order_accepted = o_status order_placed
        \<or> (o_status order_placed, o_status order_accepted) \<in> set status_chain)"
proof -
  have f: "find (\<lambda>r. o_id r = ''o1'') (orders db_accepted) = Some order_accepted"
    and v: "ACCEPTED \<notin> set (valid_transitions (o_status order_accepted))"
    and f': "find (\<lambda>r. o_id r = ''o1'') (orders db_placed) = Some order_placed"
    and v': "ACCEPTED \<in> set (valid_transitions (o_status order_placed))"
    and m: "order_placed \<in> set (orders db_placed)"
    by (simp_all add: scenario_defs)
  have st: "db_step env0 db_placed db_accepted"
    using order_accepted_by_R by (rule step_update_order_status)
  note t = status_moves_along_chain [where env = env0 and ?db1.0 = db_placed and ?db2.0 = db_accepted
      and old = order_placed and db = db_accepted and order_id = "''o1''" and order = order_accepted
      and order_update = "\<lparr>ou_status = ACCEPTED, ou_delivery_agent_id = None\<rparr>"
      and manager = "[]" and current_user = user_R and now = 3]
  have m': "order_accepted \<in> set (orders db_accepted)" "o_id order_accepted = o_id order_placed"
    by (simp_all add: scenario_defs)
  from t f v m st reachable_db_placed
  have "\<forall>new \<in> set (orders db_accepted). o_id new = o_id order_placed
         \<longrightarrow> o_status new = o_status order_placed
             \<or> (o_status order_placed, o_status new) \<in> set status_chain"
    by blast
  with m' have "o_status order_accepted = o_status order_placed
        \<or> (o_status order_placed, o_status order_accepted) \<in> set status_chain"
    by blast
  with f v f' v' m m' st reachable_db_placed noop_rejected order_accepted_by_R
  show ?thesis by blast
qed

text \<open>
  C1 as stated fails: the restaurant that owns an accepted order asks for picked_up,
  which the chain does not list from accepted, and the request fails with 403
  "Not authorized to update this order status", not with the invalid-transition error.
\<close>

theorem restaurant_pickup_is_forbidden:
  "orders db_accepted = [order_accepted]
   \<and> o_status order_accepted = ACCEPTED
   \<and> PICKED_UP \<notin> set (valid_transitions ACCEPTED)
   \<and> update_order_status [] db_accepted ''o1''
        \<lparr>ou_status = PICKED_UP, ou_delivery_agent_id = None\<rparr> user_R 3
      = (Inl (HTTPException 403 Not_authorized_to_update_this_order_status), db_accepted, [])
   \<and> HTTPException 403 Not_authorized_to_update_this_order_status
      \<noteq> HTTPException 400 (Invalid_status_transition ACCEPTED PICKED_UP)"
  by (simp add: route_defs scenario_defs)

text \<open>
  Two requests for picked_up on the same unassigned order, one handled after the
  other: the first records its agent, and the second, by another agent, is refused
  with 403 and changes nothing.
\<close>

lemma second_request_is_refused:
  assumes a: "u_role agent = DELIVERY_AGENT" "\<not> u_disabled agent" "agent \<in> set (users db)"
      "u_id agent \<noteq> []"
    and b: "u_role other = DELIVERY_AGENT" "\<not> u_disabled other" "u_id other \<noteq> u_id agent"
    and f: "find (\<lambda>r. o_id r = order_id) (orders db) = Some unassigned"
    and st: "o_status unassigned = ASSIGNED" "\<not> truthy (o_delivery_agent_id unassigned)"
    and pk: "ou_status claim = PICKED_UP" "ou_status claim' = PICKED_UP"
  shows "\<exists>row sent. update_order_status manager db order_id claim agent now
              = (Inr row, store_order row db, sent)
           \<and> o_delivery_agent_id row = Some (u_id agent)
           \<and> update_order_status manager' (store_order row db) order_id claim' other now'
              = (Inl (HTTPException 403 Not_authorized_to_update_this_order_status),
                 store_order row db, [])"
proof -
  from claim_recorded [OF a f st pk(1)] obtain row sent where
    r: "update_order_status manager db order_id claim agent now = (Inr row, store_order row db, sent)"
      "o_status row = PICKED_UP" "o_delivery_agent_id row = Some (u_id agent)"
      "find (\<lambda>r. o_id r = order_id) (orders (store_order row db)) = Some row"
    by blast
  have "authorization row claim' other = (False, claim')"
    using b r(2,3) by (simp add: authorization_def Let_def)
  then have "update_order_status manager' (store_order row db) order_id claim' other now'
      = (Inl (HTTPException 403 Not_authorized_to_update_this_order_status), store_order row db, [])"
    using b(2) r(4) by (simp add: update_order_status_def get_current_active_user_def)
  with r show ?thesis by blast
qed

text \<open>
  C2 (as amended). A status update by a delivery agent passes the authorization block
  exactly when the target status is picked_up or delivered and the requester is the
  order's delivery agent or the order is in assigned_to_delivery, with or without an
  agent attached. When an active delivery agent, a row of \<open>users\<close> with a non-empty
  id, asks for picked_up on an order in assigned_to_delivery with no agent attached,
  the update succeeds and the stored order has that agent as its delivery agent.
\<close>

theorem delivery_agent_authorization:
  "(u_role current_user = DELIVERY_AGENT
      \<longrightarrow> (fst (authorization order order_update current_user)
           \<longleftrightarrow> ou_status order_update \<in> {PICKED_UP, DELIVERED}
               \<and> (o_delivery_agent_id order = Some (u_id current_user)
                   \<or> o_status order = ASSIGNED)))
   \<and> (u_role agent = DELIVERY_AGENT \<and> \<not> u_disabled agent \<and> agent \<in> set (users db)
        \<and> u_id agent \<noteq> []
        \<and> find (\<lambda>r. o_id r = order_id) (orders db) = Some unassigned
        \<and> o_status unassigned = ASSIGNED \<and> \<not> truthy (o_delivery_agent_id unassigned)
        \<and> ou_status claim = PICKED_UP
      \<longrightarrow> (\<exists>row sent. update_order_status manager db order_id claim agent now
                = (Inr row, store_order row db, sent)
              \<and> o_status row = PICKED_UP \<and> o_delivery_agent_id row = Some (u_id agent)
              \<and> find (\<lambda>r. o_id r = order_id) (orders (store_order row db)) = Some row))"
proof (intro conjI impI)
  assume "u_role current_user = DELIVERY_AGENT"
  then show "fst (authorization order order_update current_user)
           \<longleftrightarrow> ou_status order_update \<in> {PICKED_UP, DELIVERED}
               \<and> (o_delivery_agent_id order = Some (u_id current_user)
                   \<or> o_status order = ASSIGNED)"
    by (rule delivery_agent_authorized)
next
  assume "u_role agent = DELIVERY_AGENT \<and> \<not> u_disabled agent \<and> agent \<in> set (users db)
        \<and> u_id agent \<noteq> []
        \<and> find (\<lambda>r. o_id r = order_id) (orders db) = Some unassigned
        \<and> o_status unassigned = ASSIGNED \<and> \<not> truthy (o_delivery_agent_id unassigned)
        \<and> ou_status claim = PICKED_UP"
  then show "\<exists>row sent. update_order_status manager db order_id claim agent now
                = (Inr row, store_order row db, sent)
              \<and> o_status row = PICKED_UP \<and> o_delivery_agent_id row = Some (u_id agent)
              \<and> find (\<lambda>r. o_id r = order_id) (orders (store_order row db)) = Some row"
    using claim_recorded by blast
qed

theorem delivery_agent_authorization_witness:
  "u_role user_A = DELIVERY_AGENT \<and> \<not> u_disabled user_A \<and> user_A \<in> set (users db_assigned)
   \<and> u_id user_A \<noteq> []
   \<and> find (\<lambda>r. o_id r = ''o1'') (orders db_assigned) = Some order_assigned
   \<and> o_status order_assigned = ASSIGNED \<and> \<not> truthy (o_delivery_agent_id order_assigned)
   \<and> fst (authorization order_assigned \<lparr>ou_status = PICKED_UP, ou_delivery_agent_id = None\<rparr> user_A)
   \<and> (\<exists>row sent. update_order_status [] db_assigned ''o1''
            \<lparr>ou_status = PICKED_UP, ou_delivery_agent_id = None\<rparr> user_A 4
          = (Inr row, store_order row db_assigned, sent)
        \<and> o_status row = PICKED_UP \<and> o_delivery_agent_id row = Some (u_id user_A))"
proof -
  have h: "u_role user_A = DELIVERY_AGENT" "\<not> u_disabled user_A" "user_A \<in> set (users db_assigned)"
    "u_id user_A \<noteq> []"
    "find (\<lambda>r. o_id r = ''o1'') (orders db_assigned) = Some order_assigned"
    "o_status order_assigned = ASSIGNED" "\<not> truthy (o_delivery_agent_id order_assigned)"
    "ou_status \<lparr>ou_status = PICKED_UP, ou_delivery_agent_id = None\<rparr> = PICKED_UP"
    by (simp_all add: scenario_defs truthy_def)
  note t = delivery_agent_authorization [where current_user = user_A and order = order_assigned
      and order_update = "\<lparr>ou_status = PICKED_UP, ou_delivery_agent_id = None\<rparr>"
      and agent = user_A and db = db_assigned and order_id = "''o1''" and unassigned = order_assigned
      and claim = "\<lparr>ou_status = PICKED_UP, ou_delivery_agent_id = None\<rparr>"
      and manager = "[]" and now = 4]
  from t h have a: "fst (authorization order_assigned
      \<lparr>ou_status = PICKED_UP, ou_delivery_agent_id = None\<rparr> user_A)"
    by simp
  from t h have b: "\<exists>row sent. update_order_status [] db_assigned ''o1''
            \<lparr>ou_status = PICKED_UP, ou_delivery_agent_id = None\<rparr> user_A 4
          = (Inr row, store_order row db_assigned, sent)
        \<and> o_status row = PICKED_UP \<and> o_delivery_agent_id row = Some (u_id user_A)"
    by blast
  from h a b show ?thesis by blast
qed

text \<open>
  C2 as stated fails: the order is in assigned_to_delivery with agent \<open>B\<close> attached (the
  restaurant named \<open>B\<close> in its update), agent \<open>A\<close> is neither the assigned agent nor
  is the order unassigned, and yet \<open>A\<close>'s request for picked_up is authorized and
  succeeds.
\<close>

theorem assigned_order_open_to_any_agent:
  "reachable_db env0 db_assigned_B
   \<and> orders db_assigned_B = [order_assigned_B]
   \<and> o_status order_assigned_B = ASSIGNED
   \<and> o_delivery_agent_id order_assigned_B = Some ''B''
   \<and> u_role user_A = DELIVERY_AGENT \<and> u_id user_A = ''A''
   \<and> fst (authorization order_assigned_B
            \<lparr>ou_status = PICKED_UP, ou_delivery_agent_id = None\<rparr> user_A)
   \<and> update_order_status [] db_assigned_B ''o1''
        \<lparr>ou_status = PICKED_UP, ou_delivery_agent_id = None\<rparr> user_A 4
      = (Inr order_picked_B, db_picked_B, [])
   \<and> o_delivery_agent_id order_picked_B = Some ''B''"
proof -
  have "orders db_assigned_B = [order_assigned_B]
   \<and> o_status order_assigned_B = ASSIGNED
   \<and> o_delivery_agent_id order_assigned_B = Some ''B''
   \<and> u_role user_A = DELIVERY_AGENT \<and> u_id user_A = ''A''
   \<and> fst (authorization order_assigned_B
            \<lparr>ou_status = PICKED_UP, ou_delivery_agent_id = None\<rparr> user_A)
   \<and> o_delivery_agent_id order_picked_B = Some ''B''"
    by (simp add: scenario_defs authorization_def)
  with reachable_db_assigned_B picked_up_by_A show ?thesis by blast
qed

section \<open>Claims about totals, payments and the broadcast\<close>

lemma create_order_Inr:
  assumes "create_order env manager db order current_user order_id payment_id now = (Inr created, db1, sent)"
  shows "validate_items db (oc_restaurant_id order) (oc_items order) = None
       \<and> o_id created = order_id
       \<and> o_total_amount created = calculate_order_total env db (oc_items order)
       \<and> o_status created = PLACED
       \<and> orders db1 = orders db @ [created]"
  using assms
  by (auto simp: create_order_def Let_def split: option.splits sum.splits prod.splits
      dest!: add_order_Inr process_payment_Inr)

lemma validated_total:
  "validate_items db restaurant_id items = None \<Longrightarrow>
     \<exists>amounts. line_amounts env db items = map Some amounts
       \<and> (\<forall>acc. foldl (\<lambda>total item.
              case find (\<lambda>m. m_id m = oi_item_id item) (menu_items db) of
                None \<Rightarrow> total
              | Some menu_item \<Rightarrow> total + m_price menu_item * float_of_int env (oi_quantity item))
            acc items = foldl (+) acc amounts)"
proof (induction items)
  case Nil
  show ?case by (simp add: line_amounts_def)
next
  case (Cons item items)
  from Cons.prems obtain menu_item where
    m: "find (\<lambda>m. m_id m = oi_item_id item) (menu_items db) = Some menu_item"
    and rest: "validate_items db restaurant_id items = None"
    by (auto split: option.splits if_splits)
  from Cons.IH [OF rest] obtain amounts where
    a: "line_amounts env db items = map Some amounts"
    and b: "\<And>acc. foldl (\<lambda>total item.
              case find (\<lambda>m. m_id m = oi_item_id item) (menu_items db) of
                None \<Rightarrow> total
              | Some menu_item \<Rightarrow> total + m_price menu_item * float_of_int env (oi_quantity item))
            acc items = foldl (+) acc amounts"
    by blast
  let ?x = "m_price menu_item * float_of_int env (oi_quantity item)"
  have "line_amounts env db (item # items) = map Some (?x # amounts)"
    using m a by (simp add: line_amounts_def)
  moreover have "\<forall>acc. foldl (\<lambda>total item.
              case find (\<lambda>m. m_id m = oi_item_id item) (menu_items db) of
                None \<Rightarrow> total
              | Some menu_item \<Rightarrow> total + m_price menu_item * float_of_int env (oi_quantity item))
            acc (item # items) = foldl (+) acc (?x # amounts)"
    using m b by simp
  ultimately show ?case by blast
qed

lemma distinct_map_filter_le1:
  "distinct (map f xs) \<Longrightarrow> length (filter (\<lambda>x. f x = k) xs) \<le> 1"
proof (induction xs)
  case Nil
  show ?case by simp
next
  case (Cons x xs)
  show ?case
  proof (cases "f x = k")
    case True
    with Cons.prems have "k \<notin> f ` set xs" by auto
    then have "filter (\<lambda>x. f x = k) xs = []" by (auto simp: filter_empty_conv)
    with True show ?thesis by simp
  next
    case False
    with Cons show ?thesis by simp
  qed
qed

lemma find_distinct:
  "distinct (map f xs) \<Longrightarrow> x \<in> set xs \<Longrightarrow> find (\<lambda>r. f r = f x) xs = Some x"
  by (induction xs) (auto simp: rev_image_eqI)

lemma find_append_new:
  "find P xs = None \<Longrightarrow> P x \<Longrightarrow> find P (xs @ [x]) = Some x"
  by (induction xs) (auto split: if_splits)

lemma create_payment_repeat:
  assumes "create_payment env db order_id current_user payment_id = (Inr payment, db')"
  shows "create_payment env db' order_id current_user payment_id' = (Inr payment, db')"
proof -
  from assms obtain user order where
    u: "check_role CUSTOMER current_user = Inr user"
    and o: "find (\<lambda>r. o_id r = order_id) (orders db) = Some order"
    and own: "o_customer_id order = u_id user"
    by (auto simp: create_payment_def split: sum.splits option.splits if_splits)
  show ?thesis
  proof (cases "find (\<lambda>p. p_order_id p = order_id) (payments db)")
    case (Some existing)
    with assms u o own have "payment = existing" "db' = db"
      by (simp_all add: create_payment_def)
    with u o own Some show ?thesis by (simp add: create_payment_def)
  next
    case None
    with assms u o own have
      p: "process_payment env db order_id (o_total_amount order) payment_id = Inr (payment, db')"
      by (auto simp: create_payment_def split: sum.splits)
    from process_payment_Inr [OF p] have
      d: "db' = db\<lparr>payments := payments db @ [payment]\<rparr>" and po: "p_order_id payment = order_id"
      by auto
    have "find (\<lambda>p. p_order_id p = order_id) (payments db') = Some payment"
      using None po d by (simp add: find_append_new)
    moreover have "orders db' = orders db" using d by simp
    ultimately show ?thesis using u o own by (simp add: create_payment_def)
  qed
qed

lemma create_payment_existing:
  assumes r: "reachable_db env db" and e: "existing \<in> set (payments db)"
    and k: "p_order_id existing = order_id"
    and c: "create_payment env db order_id requester payment_id = (response, db')"
  shows "db' = db \<and> (response = Inr existing \<or> (\<exists>code reason. response = Inl (HTTPException code reason)))"
proof -
  from r have "db_invariant env db" by (rule reachable_db_invariant)
  then have "distinct (map p_order_id (payments db))" by (simp add: db_invariant_def)
  from find_distinct [OF this e] k
  have f: "find (\<lambda>p. p_order_id p = order_id) (payments db) = Some existing" by simp
  from c f show ?thesis
    by (auto simp: create_payment_def check_role_def get_current_active_user_def
        split: sum.splits option.splits if_splits)
qed

lemma create_payment_owner:
  assumes r: "reachable_db env db" and e: "existing \<in> set (payments db)"
    and k: "p_order_id existing = order_id"
    and o: "paid \<in> set (orders db)" "o_id paid = order_id" "o_customer_id paid = u_id owner"
    and u: "\<not> u_disabled owner" "u_role owner = CUSTOMER \<or> u_role owner = ADMIN"
  shows "create_payment env db order_id owner payment_id = (Inr existing, db)"
proof -
  from r have "db_invariant env db" by (rule reachable_db_invariant)
  then have d: "distinct (map p_order_id (payments db))" "distinct (map o_id (orders db))"
    by (simp_all add: db_invariant_def)
  from find_distinct [OF d(1) e] k
  have f: "find (\<lambda>p. p_order_id p = order_id) (payments db) = Some existing" by simp
  from find_distinct [OF d(2) o(1)] o(2)
  have g: "find (\<lambda>r. o_id r = order_id) (orders db) = Some paid" by simp
  have "check_role CUSTOMER owner = Inr owner"
    using u by (auto simp: check_role_def get_current_active_user_def)
  with f g o(3) show ?thesis by (simp add: create_payment_def)
qed

lemma payment_requested_again:
  "create_payment env0 db_placed ''o1'' user_C ''p2'' = (Inr payment_1, db_placed)"
  by (simp add: route_defs scenario_defs)

lemma payment_requested_by_R:
  "create_payment env0 db_placed ''o1'' user_R ''p2''
     = (Inl (HTTPException 403 (Operation_requires_role CUSTOMER)), db_placed)"
  by (simp add: route_defs scenario_defs)

lemma settlement_of_two_burgers:
  "process_payment env0 (db_menu\<lparr>orders := [order_placed]\<rparr>) ''o1'' 20 ''p1''
     = Inr (payment_1, db_placed)"
  by (simp add: route_defs scenario_defs)

lemma broadcast_to_delivery_agents_raises:
  "broadcast_to_delivery_agents ac message = ([], if ac = [] then None else Some AttributeError)"
  by (cases ac) (auto simp: get_user_by_id_def)

text \<open>
  C4. When \<open>create_order\<close> succeeds in a reachable database, every line item names a
  menu item, and the order's total is the sum, taken from 0 in the order of the line
  items with the program's own \<open>+\<close> and \<open>*\<close>, of that menu item's price at creation
  time times the quantity. Whatever requests follow, menu edits included, the database
  holds an order with that id, and every row with that id has the same total.
\<close>

theorem order_total_is_snapshot:
  assumes r: "reachable_db env db"
    and c: "create_order env manager db order current_user order_id payment_id now
              = (Inr created, db1, sent)"
    and s: "(db_step env)\<^sup>*\<^sup>* db1 db2"
  shows "(\<exists>amounts. line_amounts env db (oc_items order) = map Some amounts
            \<and> o_total_amount created = foldl (+) 0 amounts)
       \<and> (\<exists>row \<in> set (orders db2). o_id row = order_id)
       \<and> (\<forall>row \<in> set (orders db2). o_id row = order_id
             \<longrightarrow> o_total_amount row = o_total_amount created)"
proof -
  from create_order_Inr [OF c] have
    v: "validate_items db (oc_restaurant_id order) (oc_items order) = None"
    and id: "o_id created = order_id"
    and t: "o_total_amount created = calculate_order_total env db (oc_items order)"
    and o1: "orders db1 = orders db @ [created]"
    by simp_all
  from validated_total [OF v, of env] obtain amounts where
    a: "line_amounts env db (oc_items order) = map Some amounts"
    and b: "\<And>acc. foldl (\<lambda>total item.
              case find (\<lambda>m. m_id m = oi_item_id item) (menu_items db) of
                None \<Rightarrow> total
              | Some menu_item \<Rightarrow> total + m_price menu_item * float_of_int env (oi_quantity item))
            acc (oc_items order) = foldl (+) acc amounts"
    by blast
  have "o_total_amount created = foldl (+) 0 amounts"
    unfolding t calculate_order_total_def by (rule b)
  with a have total: "\<exists>amounts. line_amounts env db (oc_items order) = map Some amounts
            \<and> o_total_amount created = foldl (+) 0 amounts"
    by blast
  have st: "db_step env db db1"
    using c by (rule step_create_order)
  have r1: "reachable_db env db1"
    using r st by (rule reach_step)
  have m: "created \<in> set (orders db1)" using o1 by simp
  from db_steps_total [OF s r1 m] obtain new where
    n: "new \<in> set (orders db2)" "o_id new = o_id created"
       "o_total_amount new = o_total_amount created" by blast
  have "reachable_db env db2" using s r1 by (rule db_steps_reachable)
  then have "db_invariant env db2" by (rule reachable_db_invariant)
  then have d2: "distinct (map o_id (orders db2))"
    by (simp add: db_invariant_def)
  have u: "x = new" if "x \<in> set (orders db2)" "o_id x = order_id" for x
    using that n(1,2) id distinct_map_eq [OF d2, of x new] by simp
  have e: "\<exists>row \<in> set (orders db2). o_id row = order_id"
    using n id by auto
  have f: "\<forall>row \<in> set (orders db2). o_id row = order_id
             \<longrightarrow> o_total_amount row = o_total_amount created"
    using u n(3) by blast
  from total e f show ?thesis by blast
qed

theorem order_total_is_snapshot_witness:
  "reachable_db env0 db_menu
   \<and> create_order env0 [] db_menu two_burgers user_C ''o1'' ''p1'' 1 = (Inr order_placed, db_placed, [])
   \<and> (db_step env0)\<^sup>*\<^sup>* db_placed db_repriced
   \<and> map m_price (menu_items db_menu) = [10] \<and> map m_price (menu_items db_repriced) = [99]
   \<and> o_total_amount order_placed = 20
   \<and> (\<exists>amounts. line_amounts env0 db_menu (oc_items two_burgers) = map Some amounts
         \<and> o_total_amount order_placed = foldl (+) 0 amounts)
   \<and> (\<exists>row \<in> set (orders db_repriced). o_id row = ''o1'')
   \<and> map o_id (orders db_repriced) = [''o1'']
   \<and> map o_total_amount (orders db_repriced) = [20]"
proof -
  have "db_step env0 db_placed db_repriced"
    using burger_repriced by (rule step_update_menu_item)
  then have s: "(db_step env0)\<^sup>*\<^sup>* db_placed db_repriced" by (rule r_into_rtranclp)
  have v: "map m_price (menu_items db_menu) = [10]" "map m_price (menu_items db_repriced) = [99]"
    "o_total_amount order_placed = 20"
    "map o_id (orders db_repriced) = [''o1'']"
    "map o_total_amount (orders db_repriced) = [20]"
    by (simp_all add: scenario_defs)
  note t = order_total_is_snapshot [OF reachable_db_menu two_burgers_ordered s]
  note a = t [THEN conjunct1]
  note b = t [THEN conjunct2, THEN conjunct1]
  show ?thesis
    using reachable_db_menu two_burgers_ordered s v a b by (intro conjI)
qed

text \<open>
  C5. A reachable database holds at most one payment for any order id. A payment request
  that returned a payment returns the same payment, and leaves the database as it is,
  when it is made again (whatever uuid is drawn). In a reachable database where the
  order has a payment, a payment request changes nothing and either returns that
  payment or fails with an HTTP error of the role and ownership checks; it returns the
  payment when the requester is the order's customer, active, with role customer or
  admin.
\<close>

theorem payment_is_idempotent:
  "(reachable_db env db
      \<longrightarrow> length (filter (\<lambda>p. p_order_id p = order_id) (payments db)) \<le> 1)
   \<and> (create_payment env db1 order_id1 current_user payment_id = (Inr payment, db2)
      \<longrightarrow> create_payment env db2 order_id1 current_user payment_id' = (Inr payment, db2))
   \<and> (reachable_db env db3 \<and> existing \<in> set (payments db3) \<and> p_order_id existing = order_id3
        \<and> create_payment env db3 order_id3 requester payment_id3 = (response, db4)
      \<longrightarrow> db4 = db3
          \<and> (response = Inr existing \<or> (\<exists>code reason. response = Inl (HTTPException code reason))))
   \<and> (reachable_db env db5 \<and> paid_for \<in> set (payments db5) \<and> p_order_id paid_for = order_id5
        \<and> paid \<in> set (orders db5) \<and> o_id paid = order_id5 \<and> o_customer_id paid = u_id owner
        \<and> \<not> u_disabled owner \<and> (u_role owner = CUSTOMER \<or> u_role owner = ADMIN)
      \<longrightarrow> create_payment env db5 order_id5 owner payment_id5 = (Inr paid_for, db5))"
proof (intro conjI impI)
  assume "reachable_db env db"
  then have "db_invariant env db" by (rule reachable_db_invariant)
  then have "distinct (map p_order_id (payments db))" by (simp add: db_invariant_def)
  then show "length (filter (\<lambda>p. p_order_id p = order_id) (payments db)) \<le> 1"
    by (rule distinct_map_filter_le1)
next
  assume "create_payment env db1 order_id1 current_user payment_id = (Inr payment, db2)"
  then show "create_payment env db2 order_id1 current_user payment_id' = (Inr payment, db2)"
    by (rule create_payment_repeat)
next
  assume a: "reachable_db env db3 \<and> existing \<in> set (payments db3) \<and> p_order_id existing = order_id3
        \<and> create_payment env db3 order_id3 requester payment_id3 = (response, db4)"
  then have "db4 = db3
      \<and> (response = Inr existing \<or> (\<exists>code reason. response = Inl (HTTPException code reason)))"
    using create_payment_existing [of env db3 existing order_id3 requester payment_id3 response db4]
    by simp
  then show "db4 = db3"
    and "response = Inr existing \<or> (\<exists>code reason. response = Inl (HTTPException code reason))"
    by simp_all
next
  assume "reachable_db env db5 \<and> paid_for \<in> set (payments db5) \<and> p_order_id paid_for = order_id5
        \<and> paid \<in> set (orders db5) \<and> o_id paid = order_id5 \<and> o_customer_id paid = u_id owner
        \<and> \<not> u_disabled owner \<and> (u_role owner = CUSTOMER \<or> u_role owner = ADMIN)"
  then show "create_payment env db5 order_id5 owner payment_id5 = (Inr paid_for, db5)"
    using create_payment_owner [of env db5 paid_for order_id5 paid owner payment_id5] by simp
qed

theorem payment_is_idempotent_witness:
  "reachable_db env0 db_placed
   \<and> length (filter (\<lambda>p. p_order_id p = ''o1'') (payments db_placed)) \<le> 1
   \<and> create_payment env0 db_placed ''o1'' user_C ''p2'' = (Inr payment_1, db_placed)
   \<and> create_payment env0 db_placed ''o1'' user_C ''p3'' = (Inr payment_1, db_placed)
   \<and> payment_1 \<in> set (payments db_placed) \<and> p_order_id payment_1 = ''o1''
   \<and> order_placed \<in> set (orders db_placed) \<and> o_id order_placed = ''o1''
   \<and> o_customer_id order_placed = u_id user_C
   \<and> \<not> u_disabled user_C \<and> (u_role user_C = CUSTOMER \<or> u_role user_C = ADMIN)
   \<and> create_payment env0 db_placed ''o1'' user_C ''p4'' = (Inr payment_1, db_placed)
   \<and> create_payment env0 db_placed ''o1'' user_R ''p2''
       = (Inl (HTTPException 403 (Operation_requires_role CUSTOMER)), db_placed)"
proof -
  have h: "payment_1 \<in> set (payments db_placed)" "p_order_id payment_1 = ''o1''"
    "order_placed \<in> set (orders db_placed)" "o_id order_placed = ''o1''"
    "o_customer_id order_placed = u_id user_C"
    "\<not> u_disabled user_C" "u_role user_C = CUSTOMER \<or> u_role user_C = ADMIN"
    by (simp_all add: scenario_defs)
  note t = payment_is_idempotent [where env = env0 and db = db_placed and order_id = "''o1''"
      and ?db1.0 = db_placed and ?order_id1.0 = "''o1''" and current_user = user_C
      and payment_id = "''p2''" and payment = payment_1 and ?db2.0 = db_placed
      and payment_id' = "''p3''"
      and ?db5.0 = db_placed and paid_for = payment_1 and ?order_id5.0 = "''o1''"
      and paid = order_placed and owner = user_C and ?payment_id5.0 = "''p4''"]
  have a: "length (filter (\<lambda>p. p_order_id p = ''o1'') (payments db_placed)) \<le> 1"
    using t [THEN conjunct1] reachable_db_placed by (rule mp)
  have b: "create_payment env0 db_placed ''o1'' user_C ''p3'' = (Inr payment_1, db_placed)"
    using t [THEN conjunct2, THEN conjunct1] payment_requested_again by (rule mp)
  have c: "create_payment env0 db_placed ''o1'' user_C ''p4'' = (Inr payment_1, db_placed)"
    using t [THEN conjunct2, THEN conjunct2, THEN conjunct2] reachable_db_placed h by simp
  show ?thesis
    using reachable_db_placed a payment_requested_again b h c payment_requested_by_R
    by (intro conjI)
qed

text \<open>
  C6. A payment that \<open>process_payment\<close> creates has the amount it was given, that
  amount times the literal 0.8 as restaurant share and times the literal 0.2 as
  delivery fee; and every payment of a reachable database belongs to an order of that
  database whose total is the payment's amount, with those two shares. Over the reals a
  total of 20 gives 16 and 4.
\<close>

theorem payment_split:
  "(process_payment env db order_id total_amount payment_id = Inr (payment, db')
      \<longrightarrow> p_order_id payment = order_id \<and> p_amount payment = total_amount
          \<and> p_restaurant_share payment = total_amount * float_0_8 env
          \<and> p_delivery_fee payment = total_amount * float_0_2 env
          \<and> payments db' = payments db @ [payment])
   \<and> (reachable_db env rdb \<and> stored \<in> set (payments rdb)
      \<longrightarrow> (\<exists>order \<in> set (orders rdb).
             o_id order = p_order_id stored
             \<and> p_amount stored = o_total_amount order
             \<and> p_restaurant_share stored = p_amount stored * float_0_8 env
             \<and> p_delivery_fee stored = p_amount stored * float_0_2 env))"
proof (intro conjI impI)
  assume "process_payment env db order_id total_amount payment_id = Inr (payment, db')"
  from process_payment_Inr [OF this]
  show "p_order_id payment = order_id" "p_amount payment = total_amount"
    "p_restaurant_share payment = total_amount * float_0_8 env"
    "p_delivery_fee payment = total_amount * float_0_2 env"
    "payments db' = payments db @ [payment]"
    by simp_all
next
  assume a: "reachable_db env rdb \<and> stored \<in> set (payments rdb)"
  then have "db_invariant env rdb" by (simp add: reachable_db_invariant)
  with a have "settled env rdb stored" by (simp add: db_invariant_def)
  then show "\<exists>order \<in> set (orders rdb).
             o_id order = p_order_id stored
             \<and> p_amount stored = o_total_amount order
             \<and> p_restaurant_share stored = p_amount stored * float_0_8 env
             \<and> p_delivery_fee stored = p_amount stored * float_0_2 env"
    by (simp add: settled_def)
qed

theorem payment_split_witness:
  "process_payment env0 (db_menu\<lparr>orders := [order_placed]\<rparr>) ''o1'' 20 ''p1''
     = Inr (payment_1, db_placed)
   \<and> p_amount payment_1 = 20 \<and> p_restaurant_share payment_1 = 16 \<and> p_delivery_fee payment_1 = 4
   \<and> (p_order_id payment_1 = ''o1'' \<and> p_amount payment_1 = 20
       \<and> p_restaurant_share payment_1 = 20 * float_0_8 env0
       \<and> p_delivery_fee payment_1 = 20 * float_0_2 env0
       \<and> payments db_placed = payments (db_menu\<lparr>orders := [order_placed]\<rparr>) @ [payment_1])
   \<and> reachable_db env0 db_placed \<and> payment_1 \<in> set (payments db_placed)
   \<and> (\<exists>order \<in> set (orders db_placed).
         o_id order = p_order_id payment_1
         \<and> p_amount payment_1 = o_total_amount order
         \<and> p_restaurant_share payment_1 = p_amount payment_1 * float_0_8 env0
         \<and> p_delivery_fee payment_1 = p_amount payment_1 * float_0_2 env0)"
proof -
  have m: "payment_1 \<in> set (payments db_placed)"
    and v: "p_amount payment_1 = 20" "p_restaurant_share payment_1 = 16" "p_delivery_fee payment_1 = 4"
    by (simp_all add: scenario_defs)
  note t = payment_split [where env = env0 and db = "db_menu\<lparr>orders := [order_placed]\<rparr>"
      and order_id = "''o1''" and total_amount = 20 and payment_id = "''p1''"
      and payment = payment_1 and db' = db_placed and rdb = db_placed and stored = payment_1]
  have a: "p_order_id payment_1 = ''o1'' \<and> p_amount payment_1 = 20
       \<and> p_restaurant_share payment_1 = 20 * float_0_8 env0
       \<and> p_delivery_fee payment_1 = 20 * float_0_2 env0
       \<and> payments db_placed = payments (db_menu\<lparr>orders := [order_placed]\<rparr>) @ [payment_1]"
    using t [THEN conjunct1] settlement_of_two_burgers by (rule mp)
  have rm: "reachable_db env0 db_placed \<and> payment_1 \<in> set (payments db_placed)"
    using reachable_db_placed m by (rule conjI)
  have b: "\<exists>order \<in> set (orders db_placed).
         o_id order = p_order_id payment_1
         \<and> p_amount payment_1 = o_total_amount order
         \<and> p_restaurant_share payment_1 = p_amount payment_1 * float_0_8 env0
         \<and> p_delivery_fee payment_1 = p_amount payment_1 * float_0_2 env0"
    using t [THEN conjunct2] rm by (rule mp)
  show ?thesis
    using settlement_of_two_burgers v a reachable_db_placed m b by simp
qed

text \<open>
  C9, at an input where the code departs from it. Delivery agent \<open>A\<close> is connected
  in the scope \<open>all\<close>; restaurant \<open>R\<close> moves its accepted order, with no agent
  attached, to assigned_to_delivery. The transition is committed, the look-up of the
  first registered user raises \<open>AttributeError\<close>, the request ends with that exception
  and websocket 7 is sent nothing.
\<close>

theorem order_available_is_not_delivered:
  "scope_conns agent_A_connected ''A'' ''all'' = [7]
   \<and> user_A \<in> set (users db_accepted) \<and> u_role user_A = DELIVERY_AGENT
   \<and> update_order_status agent_A_connected db_accepted ''o1''
        \<lparr>ou_status = ASSIGNED, ou_delivery_agent_id = None\<rparr> user_R 3
      = (Inl AttributeError, db_assigned, [])
   \<and> orders db_assigned = [order_assigned]
   \<and> o_status order_assigned = ASSIGNED \<and> o_delivery_agent_id order_assigned = None"
proof -
  have a: "scope_conns agent_A_connected ''A'' ''all'' = [7]"
    by (simp add: agent_A_connected_def register_connection_scope_conns scope_key_def scope_conns_Nil)
  have b: "user_A \<in> set (users db_accepted)" "u_role user_A = DELIVERY_AGENT"
    "orders db_assigned = [order_assigned]"
    "o_status order_assigned = ASSIGNED" "o_delivery_agent_id order_assigned = None"
    by (simp_all add: scenario_defs)
  have ne: "agent_A_connected \<noteq> []"
    by (simp add: agent_A_connected_def register_connection_def append_connection_def Let_def)
  have s: "send_order_update agent_A_connected ''C'' k m = []"
    "send_order_update agent_A_connected ''R'' k m = []" for k and m :: "real message"
    by (simp_all add: send_order_update_scopes agent_A_connected_def register_connection_scope_conns
        scope_conns_Nil send_all_def)
  have c: "update_order_status agent_A_connected db_accepted ''o1''
        \<lparr>ou_status = ASSIGNED, ou_delivery_agent_id = None\<rparr> user_R 3
      = (Inl AttributeError, db_assigned, [])"
    using ne
    by (simp add: update_order_status_def get_current_active_user_def authorization_def
        truthy_def notify_update_def store_order_def user_ids_def Let_def s
        broadcast_to_delivery_agents_raises scenario_defs)
  show ?thesis using a b c by (intro conjI)
qed

end
